theory Spec2Isabelle
  imports Main "HOL-Library.AList" "HOL-Library.Multiset"
begin

section \<open>Python values, errors, nodes and graphs\<close>

text \<open>
  The development embeds \<^verbatim>\<open>src/dependencygraph.py\<close> (class \<^verbatim>\<open>DependencyGraph\<close>).
  The repository is Python 2 code (its driver uses the print statement) and the module
  has \<^verbatim>\<open>unicode_literals\<close>: a text that arrives as a byte string becomes a unicode
  string when it is split at the literal \<^verbatim>\<open>'\n'\<close>, which Python 2 does for ASCII text
  only. So a \<^typ>\<open>string\<close> here holds ASCII text, and the whitespace of \<^verbatim>\<open>split()\<close>,
  \<^verbatim>\<open>rstrip()\<close> and \<^verbatim>\<open>int()\<close> is that of unicode strings in the ASCII range: the
  characters 9 to 13, 28 to 31 and 32. Text outside ASCII is outside the model.

  A dictionary is an association list with distinct keys, kept in insertion order.
  Python 2 does not fix the order in which a dictionary is iterated; the only result that
  depends on it is the order of the list that \<^verbatim>\<open>redirect_arcs\<close> builds from a
  dictionary of several keys.

  A value stored under a field of a node is \<^verbatim>\<open>None\<close>, a string or an integer.
\<close>

datatype val = VNone | VStr string | VInt int

text \<open>
  The exceptions the class can raise. The \<^verbatim>\<open>ValueError\<close>s are kept apart by their
  origin: the explicit \<^verbatim>\<open>raise ValueError('Number of tab-delimited
  fields ({0}) not supported ...')\<close> (with the number), the tuple unpacking of an
  extractor applied to the wrong number of cells, the conversion \<^verbatim>\<open>int(head)\<close>, and
  \<^verbatim>\<open>str.split\<close> with an empty separator.
\<close>

datatype error =
    ValueError_format int
  | ValueError_unpack
  | ValueError_int
  | ValueError_separator
  | DependencyGraphError
  | KeyError
  | TypeError
  | IndexError

text \<open>
  The value under \<^verbatim>\<open>'deps'\<close>: a dictionary from relation label to the list of dependent
  addresses (\<^verbatim>\<open>defaultdict(list)\<close>), or, after \<^verbatim>\<open>redirect_arcs\<close>, a plain list.
\<close>

datatype deps = DepsMap "(val \<times> int list) list" | DepsList "val list"

text \<open>
  A node is a Python dictionary with the keys below; a field that is \<open>None\<close> in the
  record is a key that is absent from the dictionary (to be told apart from a key that
  holds Python's \<^verbatim>\<open>None\<close>, which is \<open>Some VNone\<close>). The key \<^verbatim>\<open>'lemma'\<close> is the field
  \<open>lemma_fld\<close>.
\<close>

record node =
  deps :: "deps option"
  address :: "int option"
  word :: "val option"
  lemma_fld :: "val option"
  ctag :: "val option"
  tag :: "val option"
  feats :: "val option"
  head :: "val option"
  rel :: "val option"

text \<open>
  The graph: \<^verbatim>\<open>self.nodes\<close>, a \<^verbatim>\<open>defaultdict\<close> from address to node, and
  \<^verbatim>\<open>self.root\<close>, which is \<^verbatim>\<open>None\<close> or a reference to one of the node dictionaries of
  \<^verbatim>\<open>self.nodes\<close>; the reference is modelled by the address under which that node is
  stored.
\<close>

record graph =
  nodes :: "(int \<times> node) list"
  root :: "int option"

text \<open>The factory of the \<^verbatim>\<open>defaultdict\<close>: \<^verbatim>\<open>lambda: {'deps': defaultdict(list)}\<close>.\<close>

definition default_node :: node where
  "default_node =
     \<lparr>deps = Some (DepsMap []), address = None, word = None, lemma_fld = None,
      ctag = None, tag = None, feats = None, head = None, rel = None\<rparr>"

text \<open>\<^verbatim>\<open>self.nodes[k]\<close>: the node at \<open>k\<close>; an absent key is first filled by the factory.\<close>

definition nodes_getitem :: "graph \<Rightarrow> int \<Rightarrow> node \<times> graph" where
  "nodes_getitem g k =
     (case map_of (nodes g) k of
        Some n \<Rightarrow> (n, g)
      | None \<Rightarrow> (default_node, g\<lparr>nodes := nodes g @ [(k, default_node)]\<rparr>))"

text \<open>\<^verbatim>\<open>d.update(m)\<close> on node dictionaries: every key of \<open>m\<close> overrides.\<close>

definition override :: "'a option \<Rightarrow> 'a option \<Rightarrow> 'a option" where
  "override old new = (case new of None \<Rightarrow> old | Some v \<Rightarrow> Some v)"

definition update_node :: "node \<Rightarrow> node \<Rightarrow> node" where
  "update_node n m =
     \<lparr>deps = override (deps n) (deps m),
      address = override (address n) (address m),
      word = override (word n) (word m),
      lemma_fld = override (lemma_fld n) (lemma_fld m),
      ctag = override (ctag n) (ctag m),
      tag = override (tag n) (tag m),
      feats = override (feats n) (feats m),
      head = override (head n) (head m),
      rel = override (rel n) (rel m)\<rparr>"

text \<open>\<^verbatim>\<open>self.nodes[k].update(m)\<close>: look up (creating the node if absent), then update in place.\<close>

definition nodes_item_update :: "graph \<Rightarrow> int \<Rightarrow> node \<Rightarrow> graph" where
  "nodes_item_update g k m =
     (case nodes_getitem g k of
        (n, g1) \<Rightarrow> g1\<lparr>nodes := AList.update k (update_node n m) (nodes g1)\<rparr>)"

text \<open>
  The state the constructor builds before it parses anything (lines 50 to 63 of the
  source): the factory fills address 0, which is then updated with the fields of the
  \<^verbatim>\<open>TOP\<close> sentinel (no \<^verbatim>\<open>'head'\<close> key); the root is \<^verbatim>\<open>None\<close>.
\<close>

definition top_fields :: node where
  "top_fields =
     \<lparr>deps = None, address = Some 0, word = Some VNone, lemma_fld = Some VNone,
      ctag = Some (VStr ''TOP''), tag = Some (VStr ''TOP''), feats = Some VNone,
      head = None, rel = Some (VStr ''TOP'')\<rparr>"

definition empty_graph :: graph where
  "empty_graph = nodes_item_update \<lparr>nodes = [], root = None\<rparr> 0 top_fields"

section \<open>Query surface and node insertion\<close>

definition get_by_address :: "graph \<Rightarrow> int \<Rightarrow> node \<times> graph" where
  "get_by_address g node_address = nodes_getitem g node_address"

definition contains_address :: "graph \<Rightarrow> int \<Rightarrow> bool" where
  "contains_address g node_address = (node_address \<in> set (map fst (nodes g)))"

text \<open>
  \<^verbatim>\<open>add_node\<close>: \<^verbatim>\<open>node['address']\<close> raises \<^verbatim>\<open>KeyError\<close> when the key is absent, before
  anything is changed.
\<close>

definition add_node :: "graph \<Rightarrow> node \<Rightarrow> error + graph" where
  "add_node g n =
     (case address n of
        None \<Rightarrow> Inl KeyError
      | Some a \<Rightarrow> if \<not> contains_address g a then Inr (nodes_item_update g a n) else Inr g)"

section \<open>Counting left and right dependents\<close>

text \<open>\<^verbatim>\<open>children[rel]\<close> on the \<^verbatim>\<open>defaultdict(list)\<close>: the bucket, empty for a missing key.\<close>

definition bucket :: "(val \<times> int list) list \<Rightarrow> val \<Rightarrow> int list" where
  "bucket m r = (case map_of m r of None \<Rightarrow> [] | Some xs \<Rightarrow> xs)"

text \<open>
  When \<^verbatim>\<open>'deps'\<close> holds a plain list (after \<^verbatim>\<open>redirect_arcs\<close>), \<^verbatim>\<open>children[rel]\<close> indexes
  that list: a string or \<^verbatim>\<open>None\<close> index raises \<^verbatim>\<open>TypeError\<close>, an integer out of range
  \<^verbatim>\<open>IndexError\<close>; the element found is then iterated, which raises \<^verbatim>\<open>TypeError\<close> unless
  it is a string, whose characters Python 2 orders above every integer.
\<close>

definition flat_bucket :: "bool \<Rightarrow> val list \<Rightarrow> val \<Rightarrow> error + nat" where
  "flat_bucket gt children r =
     (case r of
        VInt k \<Rightarrow>
          (let n = int (length children); j = (if k < 0 then n + k else k)
           in if 0 \<le> j \<and> j < n
              then (case children ! nat j of
                      VStr s \<Rightarrow> Inr (if gt then length s else 0)
                    | _ \<Rightarrow> Inl TypeError)
              else Inl IndexError)
      | _ \<Rightarrow> Inl TypeError)"

text \<open>\<^verbatim>\<open>sum(...)\<close> over a generator: the first element that raises ends the sum.\<close>

fun sum_results :: "(error + nat) list \<Rightarrow> error + nat" where
  "sum_results [] = Inr 0"
| "sum_results (Inl e # rs) = Inl e"
| "sum_results (Inr k # rs) = (case sum_results rs of Inl e \<Rightarrow> Inl e | Inr t \<Rightarrow> Inr (k + t))"

definition left_children :: "graph \<Rightarrow> int \<Rightarrow> (error + nat) \<times> graph" where
  "left_children g node_index =
     (case nodes_getitem g node_index of (n, g1) \<Rightarrow>
        (case deps n of
           None \<Rightarrow> (Inl KeyError, g1)
         | Some children \<Rightarrow>
             (case address n of
                None \<Rightarrow> (Inl KeyError, g1)
              | Some index \<Rightarrow>
                  (case children of
                     DepsMap m \<Rightarrow>
                       (Inr (sum_list (map (\<lambda>r. length (filter (\<lambda>i. i < index) (bucket m r)))
                                          (filter (\<lambda>r. r \<noteq> VStr ''_'') (map fst m)))), g1)
                   | DepsList xs \<Rightarrow>
                       (sum_results (map (flat_bucket False xs)
                                         (filter (\<lambda>r. r \<noteq> VStr ''_'') xs)), g1)))))"

definition right_children :: "graph \<Rightarrow> int \<Rightarrow> (error + nat) \<times> graph" where
  "right_children g node_index =
     (case nodes_getitem g node_index of (n, g1) \<Rightarrow>
        (case deps n of
           None \<Rightarrow> (Inl KeyError, g1)
         | Some children \<Rightarrow>
             (case address n of
                None \<Rightarrow> (Inl KeyError, g1)
              | Some index \<Rightarrow>
                  (case children of
                     DepsMap m \<Rightarrow>
                       (Inr (sum_list (map (\<lambda>r. length (filter (\<lambda>i. i > index) (bucket m r)))
                                          (filter (\<lambda>r. r \<noteq> VStr ''_'') (map fst m)))), g1)
                   | DepsList xs \<Rightarrow>
                       (sum_results (map (flat_bucket True xs)
                                         (filter (\<lambda>r. r \<noteq> VStr ''_'') xs)), g1)))))"

section \<open>Redirecting arcs\<close>

text \<open>
  \<^verbatim>\<open>for dep in node['deps']\<close> iterates the keys when \<^verbatim>\<open>'deps'\<close> is a dictionary (the
  relation labels), and the elements when it is a list.
\<close>

definition deps_iter :: "deps \<Rightarrow> val list" where
  "deps_iter d = (case d of DepsMap m \<Rightarrow> map fst m | DepsList xs \<Rightarrow> xs)"

definition redirect_node :: "val set \<Rightarrow> val \<Rightarrow> node \<Rightarrow> error + node" where
  "redirect_node originals redirect n =
     (case deps n of
        None \<Rightarrow> Inl KeyError
      | Some d \<Rightarrow>
          Inr (n\<lparr>deps := Some (DepsList
                 (map (\<lambda>dep. if dep \<in> originals then redirect else dep) (deps_iter d)))\<rparr>))"

fun redirect_nodes :: "val set \<Rightarrow> val \<Rightarrow> (int \<times> node) list \<Rightarrow> error + (int \<times> node) list" where
  "redirect_nodes originals redirect [] = Inr []"
| "redirect_nodes originals redirect ((k, n) # ns) =
     (case redirect_node originals redirect n of
        Inl e \<Rightarrow> Inl e
      | Inr n' \<Rightarrow>
          (case redirect_nodes originals redirect ns of
             Inl e \<Rightarrow> Inl e
           | Inr ns' \<Rightarrow> Inr ((k, n') # ns')))"

definition redirect_arcs :: "graph \<Rightarrow> val set \<Rightarrow> val \<Rightarrow> error + graph" where
  "redirect_arcs g originals redirect =
     (case redirect_nodes originals redirect (nodes g) of
        Inl e \<Rightarrow> Inl e
      | Inr ns \<Rightarrow> Inr (g\<lparr>nodes := ns\<rparr>))"

section \<open>Strings: splitting, stripping, integers\<close>

abbreviation TAB :: char where "TAB \<equiv> CHR 0x09"
abbreviation NL :: char where "NL \<equiv> CHR 0x0A"

definition is_space :: "char \<Rightarrow> bool" where
  "is_space c =
     (c \<in> {CHR 0x09, CHR 0x0A, CHR 0x0B, CHR 0x0C, CHR 0x0D,
            CHR 0x1C, CHR 0x1D, CHR 0x1E, CHR 0x1F, CHR 0x20})"

definition rstrip :: "string \<Rightarrow> string" where
  "rstrip s = rev (dropWhile is_space (rev s))"

definition strip :: "string \<Rightarrow> string" where
  "strip s = dropWhile is_space (rstrip s)"

text \<open>\<^verbatim>\<open>s.split()\<close>: the maximal runs of characters that are not whitespace.\<close>

fun split_ws_from :: "string \<Rightarrow> string \<Rightarrow> string list" where
  "split_ws_from cur [] = (if cur = [] then [] else [rev cur])"
| "split_ws_from cur (c # cs) =
     (if is_space c
      then (if cur = [] then split_ws_from [] cs else rev cur # split_ws_from [] cs)
      else split_ws_from (c # cur) cs)"

definition split_ws :: "string \<Rightarrow> string list" where
  "split_ws s = split_ws_from [] s"

text \<open>
  \<^verbatim>\<open>s.split(sep)\<close> for a non-empty \<open>sep\<close>: the text between the occurrences of \<open>sep\<close>,
  found from left to right without overlap; \<open>cur\<close> is the piece read so far, reversed.
\<close>

fun split_sep_from :: "string \<Rightarrow> string \<Rightarrow> string \<Rightarrow> string list" where
  "split_sep_from sep cur [] = [rev cur]"
| "split_sep_from sep cur (c # cs) =
     (if sep \<noteq> [] \<and> take (length sep) (c # cs) = sep
      then rev cur # split_sep_from sep [] (drop (length sep) (c # cs))
      else split_sep_from sep (c # cur) cs)"

definition split_sep :: "string \<Rightarrow> string \<Rightarrow> string list" where
  "split_sep sep s = split_sep_from sep [] s"

text \<open>\<^verbatim>\<open>line.split(cell_separator)\<close>; an empty separator raises \<^verbatim>\<open>ValueError\<close>.\<close>

definition py_split :: "string option \<Rightarrow> string \<Rightarrow> error + string list" where
  "py_split cell_separator s =
     (case cell_separator of
        None \<Rightarrow> Inr (split_ws s)
      | Some sep \<Rightarrow> if sep = [] then Inl ValueError_separator else Inr (split_sep sep s))"

text \<open>
  \<^verbatim>\<open>int(s)\<close> on a string: whitespace around, an optional sign (after which Python 2
  skips whitespace once more), then one or more decimal digits; anything else is a
  \<^verbatim>\<open>ValueError\<close>. (Python 2 also takes a final \<open>L\<close> on a numeral beyond the machine
  integers; heads of that size are outside the model.) \<^verbatim>\<open>str(i)\<close> on an integer: the
  decimal numeral, with \<open>-\<close> for a negative one.
\<close>

definition is_digit :: "char \<Rightarrow> bool" where
  "is_digit c = (48 \<le> (of_char c :: nat) \<and> (of_char c :: nat) \<le> 57)"

definition digits_value :: "string \<Rightarrow> nat" where
  "digits_value ds = foldl (\<lambda>a c. 10 * a + (of_char c - 48)) 0 ds"

definition digits_int :: "string \<Rightarrow> int option" where
  "digits_int ds = (if ds \<noteq> [] \<and> list_all is_digit ds then Some (int (digits_value ds)) else None)"

definition py_int :: "string \<Rightarrow> int option" where
  "py_int s =
     (case strip s of
        [] \<Rightarrow> None
      | c # cs \<Rightarrow>
          if c = CHR ''-'' then map_option uminus (digits_int (dropWhile is_space cs))
          else if c = CHR ''+'' then digits_int (dropWhile is_space cs)
          else digits_int (c # cs))"

fun show_nat :: "nat \<Rightarrow> string" where
  "show_nat n =
     (if n < 10 then [char_of (48 + n)] else show_nat (n div 10) @ [char_of (48 + n mod 10)])"

definition show_int :: "int \<Rightarrow> string" where
  "show_int i = (if i < 0 then CHR ''-'' # show_nat (nat (- i)) else show_nat (nat i))"

text \<open>How \<^verbatim>\<open>str.format\<close> renders a value.\<close>

definition str_of_val :: "val \<Rightarrow> string" where
  "str_of_val v = (case v of VNone \<Rightarrow> ''None'' | VStr s \<Rightarrow> s | VInt i \<Rightarrow> show_int i)"

section \<open>Parsing\<close>

text \<open>
  An extractor maps the cells of a line to \<^verbatim>\<open>word, lemma, ctag, tag, feats, head, rel\<close>
  (the variables \<open>wd, lm, ct, tg, ft, hs, rl\<close> below, since the field names are taken).
  The built-in ones unpack a tuple of fixed length, which raises \<^verbatim>\<open>ValueError\<close> on any
  other number of cells.
\<close>

type_synonym fields = "val \<times> val \<times> val \<times> val \<times> val \<times> val \<times> val"
type_synonym extractor = "string list \<Rightarrow> error + fields"

fun extract_3_cells :: extractor where
  "extract_3_cells [wd, tg, hs] =
     Inr (VStr wd, VStr wd, VStr tg, VStr tg, VStr [], VStr hs, VStr [])"
| "extract_3_cells cells = Inl ValueError_unpack"

fun extract_4_cells :: extractor where
  "extract_4_cells [wd, tg, hs, rl] =
     Inr (VStr wd, VStr wd, VStr tg, VStr tg, VStr [], VStr hs, VStr rl)"
| "extract_4_cells cells = Inl ValueError_unpack"

fun extract_10_cells :: extractor where
  "extract_10_cells [c0, wd, lm, ct, tg, ft, hs, rl, c8, c9] =
     Inr (VStr wd, VStr lm, VStr ct, VStr tg, VStr ft, VStr hs, VStr rl)"
| "extract_10_cells cells = Inl ValueError_unpack"

definition extractors :: "nat \<Rightarrow> extractor option" where
  "extractors nrCells =
     (if nrCells = 3 then Some extract_3_cells
      else if nrCells = 4 then Some extract_4_cells
      else if nrCells = 10 then Some extract_10_cells
      else None)"

text \<open>\<^verbatim>\<open>int(head)\<close>: a string is converted, an integer is itself, \<^verbatim>\<open>None\<close> is a \<^verbatim>\<open>TypeError\<close>.\<close>

definition int_of_val :: "val \<Rightarrow> error + int" where
  "int_of_val v =
     (case v of
        VInt i \<Rightarrow> Inr i
      | VStr s \<Rightarrow> (case py_int s of None \<Rightarrow> Inl ValueError_int | Some i \<Rightarrow> Inr i)
      | VNone \<Rightarrow> Inl TypeError)"

text \<open>
  \<^verbatim>\<open>self.nodes[head]['deps'][rel].append(index)\<close>. The parser only runs from the
  constructor, where every \<^verbatim>\<open>'deps'\<close> is a dictionary; indexing a list by a relation
  label would be a \<^verbatim>\<open>TypeError\<close>.
\<close>

definition arc_append :: "graph \<Rightarrow> int \<Rightarrow> val \<Rightarrow> int \<Rightarrow> error + graph" where
  "arc_append g h r index =
     (case nodes_getitem g h of (n, g1) \<Rightarrow>
        (case deps n of
           None \<Rightarrow> Inl KeyError
         | Some (DepsList xs) \<Rightarrow> Inl TypeError
         | Some (DepsMap m) \<Rightarrow>
             Inr (g1\<lparr>nodes :=
                    AList.update h
                      (n\<lparr>deps := Some (DepsMap (AList.update r (bucket m r @ [index]) m))\<rparr>)
                      (nodes g1)\<rparr>)))"

text \<open>The dictionary the loop body passes to \<^verbatim>\<open>self.nodes[index].update\<close>.\<close>

definition line_fields :: "int \<Rightarrow> fields \<Rightarrow> int \<Rightarrow> node" where
  "line_fields index fs h =
     (case fs of (wd, lm, ct, tg, ft, hs, rl) \<Rightarrow>
        \<lparr>deps = None, address = Some index, word = Some wd, lemma_fld = Some lm,
         ctag = Some ct, tag = Some tg, feats = Some ft, head = Some (VInt h),
         rel = Some rl\<rparr>)"

text \<open>
  The choice of the extractor at one line: the one carried over from the line before
  (or passed by the caller), else the built-in one for the number of cells of this line.
\<close>

definition select_extractor :: "extractor option \<Rightarrow> nat \<Rightarrow> error + extractor" where
  "select_extractor cell_extractor nrCells =
     (case cell_extractor of
        Some ext \<Rightarrow> Inr ext
      | None \<Rightarrow>
          (case extractors nrCells of
             None \<Rightarrow> Inl (ValueError_format (int nrCells))
           | Some ext \<Rightarrow> Inr ext))"

text \<open>
  The body of the loop over the lines, from the extracted fields on: \<^verbatim>\<open>head\<close> is made an
  integer (plus one when \<^verbatim>\<open>zero_based\<close>), the node at \<open>index\<close> is updated and the arc is
  recorded at the head.
\<close>

definition store_line :: "bool \<Rightarrow> int \<Rightarrow> fields \<Rightarrow> graph \<Rightarrow> error + graph" where
  "store_line zero_based index fs g =
     (case fs of (wd, lm, ct, tg, ft, hs, rl) \<Rightarrow>
        (case int_of_val hs of
           Inl e \<Rightarrow> Inl e
         | Inr h0 \<Rightarrow>
             (let h = (if zero_based then h0 + 1 else h0)
              in arc_append (nodes_item_update g index (line_fields index fs h)) h rl index)))"

text \<open>
  The loop \<^verbatim>\<open>for index, line in enumerate(lines, start=1)\<close>, with the variable
  \<^verbatim>\<open>cell_extractor\<close> carried from one iteration to the next. An exception leaves the
  constructor, so the graph under construction is lost.
\<close>

fun parse_lines ::
  "extractor option \<Rightarrow> bool \<Rightarrow> string option \<Rightarrow> int \<Rightarrow> string list \<Rightarrow> graph \<Rightarrow> error + graph" where
  "parse_lines cell_extractor zero_based cell_separator index [] g = Inr g"
| "parse_lines cell_extractor zero_based cell_separator index (line # lines) g =
     (case py_split cell_separator line of
        Inl e \<Rightarrow> Inl e
      | Inr cells \<Rightarrow>
          (case select_extractor cell_extractor (length cells) of
             Inl e \<Rightarrow> Inl e
           | Inr ext \<Rightarrow>
               (case ext cells of
                  Inl e \<Rightarrow> Inl e
                | Inr fs \<Rightarrow>
                    (case store_line zero_based index fs g of
                       Inl e \<Rightarrow> Inl e
                     | Inr g' \<Rightarrow>
                         parse_lines (Some ext) zero_based cell_separator (index + 1) lines g'))))"

text \<open>The input of the parser: a string, or lines already split (unicode strings too).\<close>

datatype parse_input = Str string | Lines "string list"

definition input_lines :: "parse_input \<Rightarrow> string list" where
  "input_lines input =
     filter (\<lambda>l. l \<noteq> [])
       (map rstrip (case input of Str s \<Rightarrow> split_sep [NL] s | Lines ls \<Rightarrow> ls))"

text \<open>
  The check after the loop. \<^verbatim>\<open>self.nodes[0]['deps']['ROOT']\<close> reads the bucket (the
  \<^verbatim>\<open>defaultdict\<close> would add an empty one, but then the parse fails and the graph is
  lost); on success the root is the node at the first address of the bucket.
\<close>

definition find_root :: "graph \<Rightarrow> error + graph" where
  "find_root g =
     (case nodes_getitem g 0 of (n0, g1) \<Rightarrow>
        (case deps n0 of
           None \<Rightarrow> Inl KeyError
         | Some (DepsList xs) \<Rightarrow> Inl TypeError
         | Some (DepsMap m) \<Rightarrow>
             (case bucket m (VStr ''ROOT'') of
                [] \<Rightarrow> Inl DependencyGraphError
              | root_address # rest \<Rightarrow>
                  (case nodes_getitem g1 root_address of (n, g2) \<Rightarrow>
                     Inr (g2\<lparr>root := Some root_address\<rparr>)))))"

definition parse ::
  "graph \<Rightarrow> parse_input \<Rightarrow> extractor option \<Rightarrow> bool \<Rightarrow> string option \<Rightarrow> error + graph" where
  "parse g input cell_extractor zero_based cell_separator =
     (case parse_lines cell_extractor zero_based cell_separator 1 (input_lines input) g of
        Inl e \<Rightarrow> Inl e
      | Inr g' \<Rightarrow> find_root g')"

text \<open>The constructor: \<^verbatim>\<open>if tree_str:\<close> skips the parser for \<^verbatim>\<open>None\<close>, \<^verbatim>\<open>''\<close> and \<^verbatim>\<open>[]\<close>.\<close>

definition truthy :: "parse_input option \<Rightarrow> bool" where
  "truthy tree_str =
     (case tree_str of None \<Rightarrow> False | Some (Str s) \<Rightarrow> s \<noteq> [] | Some (Lines ls) \<Rightarrow> ls \<noteq> [])"

definition DependencyGraph ::
  "parse_input option \<Rightarrow> extractor option \<Rightarrow> bool \<Rightarrow> string option \<Rightarrow> error + graph" where
  "DependencyGraph tree_str cell_extractor zero_based cell_separator =
     (case tree_str of
        None \<Rightarrow> Inr empty_graph
      | Some input \<Rightarrow>
          if truthy tree_str
          then parse empty_graph input cell_extractor zero_based cell_separator
          else Inr empty_graph)"

section \<open>Loading a file\<close>

text \<open>
  \<^verbatim>\<open>load\<close> takes the content of the file (\<^verbatim>\<open>infile.read()\<close>). The list comprehension
  builds the graphs in order; the first constructor that raises ends it.
\<close>

fun map_result :: "('a \<Rightarrow> error + 'b) \<Rightarrow> 'a list \<Rightarrow> error + 'b list" where
  "map_result f [] = Inr []"
| "map_result f (x # xs) =
     (case f x of
        Inl e \<Rightarrow> Inl e
      | Inr y \<Rightarrow> (case map_result f xs of Inl e \<Rightarrow> Inl e | Inr ys \<Rightarrow> Inr (y # ys)))"

definition load :: "string \<Rightarrow> bool \<Rightarrow> string option \<Rightarrow> error + graph list" where
  "load content zero_based cell_separator =
     map_result (\<lambda>tree_str. DependencyGraph (Some (Str tree_str)) None zero_based cell_separator)
       (split_sep [NL, NL] content)"

section \<open>Serialising\<close>

text \<open>
  A template is a sequence of literal text and named fields; \<^verbatim>\<open>template.format(i=i,
  **node)\<close> looks each field up among the keys of the node (and \<open>i\<close>), raising
  \<^verbatim>\<open>KeyError\<close> for a key the node does not have.
\<close>

datatype piece = Lit string | F_i | F_word | F_lemma | F_ctag | F_tag | F_feats | F_head | F_rel

definition template_3 :: "piece list" where
  "template_3 = [F_word, Lit [TAB], F_tag, Lit [TAB], F_head, Lit [NL]]"

definition template_4 :: "piece list" where
  "template_4 = [F_word, Lit [TAB], F_tag, Lit [TAB], F_head, Lit [TAB], F_rel, Lit [NL]]"

definition template_10 :: "piece list" where
  "template_10 =
     [F_i, Lit [TAB], F_word, Lit [TAB], F_lemma, Lit [TAB], F_ctag, Lit [TAB], F_tag,
      Lit [TAB], F_feats, Lit [TAB], F_head, Lit [TAB], F_rel, Lit [TAB, CHR ''_'', TAB, CHR ''_'', NL]]"

definition select_template :: "int \<Rightarrow> error + piece list" where
  "select_template style =
     (if style = 3 then Inr template_3
      else if style = 4 then Inr template_4
      else if style = 10 then Inr template_10
      else Inl (ValueError_format style))"

definition format_piece :: "int \<Rightarrow> node \<Rightarrow> piece \<Rightarrow> string option" where
  "format_piece i n p =
     (case p of
        Lit s \<Rightarrow> Some s
      | F_i \<Rightarrow> Some (show_int i)
      | F_word \<Rightarrow> map_option str_of_val (word n)
      | F_lemma \<Rightarrow> map_option str_of_val (lemma_fld n)
      | F_ctag \<Rightarrow> map_option str_of_val (ctag n)
      | F_tag \<Rightarrow> map_option str_of_val (tag n)
      | F_feats \<Rightarrow> map_option str_of_val (feats n)
      | F_head \<Rightarrow> map_option str_of_val (head n)
      | F_rel \<Rightarrow> map_option str_of_val (rel n))"

fun format_template :: "piece list \<Rightarrow> int \<Rightarrow> node \<Rightarrow> error + string" where
  "format_template [] i n = Inr []"
| "format_template (p # ps) i n =
     (case format_piece i n p of
        None \<Rightarrow> Inl KeyError
      | Some s \<Rightarrow> (case format_template ps i n of Inl e \<Rightarrow> Inl e | Inr t \<Rightarrow> Inr (s @ t)))"

text \<open>
  The generator joined by \<^verbatim>\<open>''.join\<close>: over the items in ascending order of address, the
  test \<^verbatim>\<open>node['tag'] != 'TOP'\<close> (a \<^verbatim>\<open>KeyError\<close> on a node without the key), then the
  formatted line.
\<close>

fun join_lines :: "piece list \<Rightarrow> (int \<times> node) list \<Rightarrow> error + string" where
  "join_lines template [] = Inr []"
| "join_lines template ((i, n) # items) =
     (case tag n of
        None \<Rightarrow> Inl KeyError
      | Some t \<Rightarrow>
          if t \<noteq> VStr ''TOP''
          then (case format_template template i n of
                  Inl e \<Rightarrow> Inl e
                | Inr s \<Rightarrow> (case join_lines template items of Inl e \<Rightarrow> Inl e | Inr r \<Rightarrow> Inr (s @ r)))
          else join_lines template items)"

definition to_conll :: "graph \<Rightarrow> int \<Rightarrow> error + string" where
  "to_conll g style =
     (case select_template style of
        Inl e \<Rightarrow> Inl e
      | Inr template \<Rightarrow> join_lines template (sort_key fst (nodes g)))"

section \<open>Specification-side notions and example records\<close>

text \<open>
  The number of dependent entries of a node over all relation buckets whose label is not
  the placeholder \<^verbatim>\<open>"_"\<close>, and the number of those entries that are equal to a given
  address.
\<close>

definition total_dependents :: "(val \<times> int list) list \<Rightarrow> nat" where
  "total_dependents m =
     sum_list (map (\<lambda>r. length (bucket m r)) (filter (\<lambda>r. r \<noteq> VStr ''_'') (map fst m)))"

definition own_entries :: "int \<Rightarrow> (val \<times> int list) list \<Rightarrow> nat" where
  "own_entries index m =
     sum_list (map (\<lambda>r. length (filter (\<lambda>i. i = index) (bucket m r)))
                   (filter (\<lambda>r. r \<noteq> VStr ''_'') (map fst m)))"

text \<open>
  The line of a node in each style, as the specification writes the templates, and the
  fields a style needs. A field is rendered as \<^verbatim>\<open>format\<close> renders its value.
\<close>

definition field_text :: "val option \<Rightarrow> string" where
  "field_text v = (case v of None \<Rightarrow> [] | Some x \<Rightarrow> str_of_val x)"

definition conll_line :: "int \<Rightarrow> int \<Rightarrow> node \<Rightarrow> string" where
  "conll_line style i n =
     (if style = 3 then
        field_text (word n) @ [TAB] @ field_text (tag n) @ [TAB] @ field_text (head n) @ [NL]
      else if style = 4 then
        field_text (word n) @ [TAB] @ field_text (tag n) @ [TAB] @ field_text (head n) @ [TAB]
          @ field_text (rel n) @ [NL]
      else
        show_int i @ [TAB] @ field_text (word n) @ [TAB] @ field_text (lemma_fld n) @ [TAB]
          @ field_text (ctag n) @ [TAB] @ field_text (tag n) @ [TAB] @ field_text (feats n)
          @ [TAB] @ field_text (head n) @ [TAB] @ field_text (rel n) @ [TAB] @ ''_'' @ [TAB]
          @ ''_'' @ [NL])"

definition has_fields :: "int \<Rightarrow> node \<Rightarrow> bool" where
  "has_fields style n =
     (word n \<noteq> None \<and> tag n \<noteq> None \<and> head n \<noteq> None \<and>
      (style = 3 \<or> rel n \<noteq> None) \<and>
      (style = 3 \<or> style = 4 \<or> (lemma_fld n \<noteq> None \<and> ctag n \<noteq> None \<and> feats n \<noteq> None)))"

definition not_top :: "int \<times> node \<Rightarrow> bool" where
  "not_top item = (tag (snd item) \<noteq> Some (VStr ''TOP''))"

text \<open>
  Four small records in the 4-column style (cells separated by blanks): a chain
  \<open>1 \<leftarrow> 2 \<leftarrow> 3\<close> below the root; a record whose second line names itself as head; a record
  whose only token has the tag \<^verbatim>\<open>TOP\<close>; and a record whose second line names a head,
  7, that no line describes.
\<close>

definition chain_text :: string where
  "chain_text = ''a b 0 ROOT'' @ [NL] @ ''c d 1 X'' @ [NL] @ ''e f 2 Y''"

definition chain_graph :: graph where
  "chain_graph = projr (DependencyGraph (Some (Str chain_text)) None False None)"

definition self_head_text :: string where
  "self_head_text = ''a b 0 ROOT'' @ [NL] @ ''c d 2 X''"

definition self_head_graph :: graph where
  "self_head_graph = projr (DependencyGraph (Some (Str self_head_text)) None False None)"

definition top_tagged_text :: string where
  "top_tagged_text = ''x TOP 0 ROOT''"

definition top_tagged_graph :: graph where
  "top_tagged_graph = projr (DependencyGraph (Some (Str top_tagged_text)) None False None)"

definition dangling_head_text :: string where
  "dangling_head_text = ''a b 0 ROOT'' @ [NL] @ ''c d 7 X''"

definition dangling_head_graph :: graph where
  "dangling_head_graph = projr (DependencyGraph (Some (Str dangling_head_text)) None False None)"

definition chain_conll_4 :: string where
  "chain_conll_4 =
     ''a'' @ [TAB] @ ''b'' @ [TAB] @ ''0'' @ [TAB] @ ''ROOT'' @ [NL] @
     ''c'' @ [TAB] @ ''d'' @ [TAB] @ ''1'' @ [TAB] @ ''X'' @ [NL] @
     ''e'' @ [TAB] @ ''f'' @ [TAB] @ ''2'' @ [TAB] @ ''Y'' @ [NL]"

text \<open>
  The policy of the specification for a parse without a custom extractor: one built-in
  extractor, chosen once, is applied to every line, whatever the number of cells of that
  line.
\<close>

definition builtin_extractor :: "nat \<Rightarrow> extractor" where
  "builtin_extractor nrCells =
     (if nrCells = 3 then extract_3_cells
      else if nrCells = 4 then extract_4_cells
      else extract_10_cells)"

fun parse_lines_with ::
  "extractor \<Rightarrow> bool \<Rightarrow> string option \<Rightarrow> int \<Rightarrow> string list \<Rightarrow> graph \<Rightarrow> error + graph" where
  "parse_lines_with ext zero_based cell_separator index [] g = Inr g"
| "parse_lines_with ext zero_based cell_separator index (line # lines) g =
     (case py_split cell_separator line of
        Inl e \<Rightarrow> Inl e
      | Inr cells \<Rightarrow>
          (case ext cells of
             Inl e \<Rightarrow> Inl e
           | Inr fs \<Rightarrow>
               (case store_line zero_based index fs g of
                  Inl e \<Rightarrow> Inl e
                | Inr g' \<Rightarrow> parse_lines_with ext zero_based cell_separator (index + 1) lines g')))"

text \<open>
  A record whose first line has four cells and whose second line has three, and a
  record whose first line has five cells.
\<close>

definition mixed_text :: string where
  "mixed_text = ''a b 0 ROOT'' @ [NL] @ ''c d 0''"

definition five_cells_text :: string where
  "five_cells_text = ''a b 0 ROOT x'' @ [NL] @ ''c d 1 X''"

section \<open>Notions used to describe a parsed graph\<close>

text \<open>
  The node \<^verbatim>\<open>self.nodes[k]\<close> evaluates to; the fields of the node at an address other
  than \<^verbatim>\<open>'deps'\<close> (\<open>None\<close> where there is no node); a node without any field.
\<close>

definition node_at :: "graph \<Rightarrow> int \<Rightarrow> node" where
  "node_at g k = (case map_of (nodes g) k of None \<Rightarrow> default_node | Some n \<Rightarrow> n)"

definition fields_view :: "graph \<Rightarrow> int \<Rightarrow> node option" where
  "fields_view g k = map_option (\<lambda>n. n\<lparr>deps := None\<rparr>) (map_of (nodes g) k)"

definition blank_node :: node where
  "blank_node = default_node\<lparr>deps := None\<rparr>"

text \<open>
  What a line contributes under a given extractor: its extracted fields, and the head
  address that is stored for them (the integer value of the head field, plus one when
  \<^verbatim>\<open>zero_based\<close>).
\<close>

definition line_record :: "extractor \<Rightarrow> string option \<Rightarrow> string \<Rightarrow> fields option" where
  "line_record ext cell_separator line =
     (case py_split cell_separator line of
        Inl e \<Rightarrow> None
      | Inr cells \<Rightarrow> (case ext cells of Inl e \<Rightarrow> None | Inr fs \<Rightarrow> Some fs))"

definition stored_head :: "bool \<Rightarrow> fields \<Rightarrow> int option" where
  "stored_head zero_based fs =
     (case fs of (wd, lm, ct, tg, ft, hs, rl) \<Rightarrow>
        (case int_of_val hs of
           Inl e \<Rightarrow> None
         | Inr h0 \<Rightarrow> Some (if zero_based then h0 + 1 else h0)))"

definition fields_rel :: "fields \<Rightarrow> val" where
  "fields_rel fs = (case fs of (wd, lm, ct, tg, ft, hs, rl) \<Rightarrow> rl)"

text \<open>
  The list \<^verbatim>\<open>self.nodes[0]['deps']['ROOT']\<close> of a graph (\<open>None\<close> when the \<^verbatim>\<open>'deps'\<close> of
  the sentinel is not a dictionary), and the positions of the lines that attach to the
  sentinel under the relation \<^verbatim>\<open>ROOT\<close>: the stored head is 0 and the relation is
  \<^verbatim>\<open>ROOT\<close>.
\<close>

definition top_roots :: "graph \<Rightarrow> int list option" where
  "top_roots g =
     (case deps (node_at g 0) of
        Some (DepsMap m) \<Rightarrow> Some (bucket m (VStr ''ROOT''))
      | _ \<Rightarrow> None)"

definition is_root_line :: "extractor \<Rightarrow> bool \<Rightarrow> string option \<Rightarrow> string \<Rightarrow> bool" where
  "is_root_line ext zero_based cell_separator line =
     (case line_record ext cell_separator line of
        None \<Rightarrow> False
      | Some fs \<Rightarrow> stored_head zero_based fs = Some 0 \<and> fields_rel fs = VStr ''ROOT'')"

fun root_lines :: "extractor \<Rightarrow> bool \<Rightarrow> string option \<Rightarrow> int \<Rightarrow> string list \<Rightarrow> int list" where
  "root_lines ext zero_based cell_separator index [] = []"
| "root_lines ext zero_based cell_separator index (line # lines) =
     (if is_root_line ext zero_based cell_separator line then [index] else [])
       @ root_lines ext zero_based cell_separator (index + 1) lines"

text \<open>
  The fields of a line in the 3-, 4- and 10-column styles, read by the built-in
  extractor for the number of cells of the line; its relation field; and the integer
  value of its head field as written.
\<close>

definition builtin_record :: "string option \<Rightarrow> string \<Rightarrow> fields option" where
  "builtin_record cell_separator line =
     (case py_split cell_separator line of
        Inl e \<Rightarrow> None
      | Inr cells \<Rightarrow>
          (case extractors (length cells) of
             None \<Rightarrow> None
           | Some ext \<Rightarrow> (case ext cells of Inl e \<Rightarrow> None | Inr fs \<Rightarrow> Some fs)))"

definition builtin_rel :: "string option \<Rightarrow> string \<Rightarrow> val option" where
  "builtin_rel cell_separator line = map_option fields_rel (builtin_record cell_separator line)"

definition raw_head :: "string option \<Rightarrow> string \<Rightarrow> int option" where
  "raw_head cell_separator line =
     (case builtin_record cell_separator line of None \<Rightarrow> None | Some fs \<Rightarrow> stored_head False fs)"

text \<open>
  The example of the specification in the 3-column style, which has no relation column,
  and a 4-column record for a zero-based parse together with its one-based counterpart.
\<close>

definition three_column_text :: string where
  "three_column_text = ''John NNP 2'' @ [NL] @ ''loves VBZ 0'' @ [NL] @ ''Mary NNP 2''"

definition zero_based_text :: string where
  "zero_based_text = ''a b -1 ROOT'' @ [NL] @ ''c d 0 X''"

definition one_based_text :: string where
  "one_based_text = ''a b 0 ROOT'' @ [NL] @ ''c d 1 X''"

definition chain2_graph :: graph where
  "chain2_graph = projr (parse empty_graph (Str one_based_text) None False None)"

text \<open>
  The root invariant of the data model: the sentinel's list under \<^verbatim>\<open>ROOT\<close> is not
  empty, and the root is the node at its first address.
\<close>

definition root_invariant :: "graph \<Rightarrow> bool" where
  "root_invariant g =
     (case top_roots g of
        Some (r # rest) \<Rightarrow> root g = Some r \<and> contains_address g r
      | _ \<Rightarrow> False)"

text \<open>
  File contents: two blocks separated by a blank line; three blocks of which the second
  has no root; and one block followed by a blank line.
\<close>

definition two_blocks_text :: string where
  "two_blocks_text = chain_text @ [NL, NL] @ one_based_text @ [NL]"

definition bad_block_text :: string where
  "bad_block_text = chain_text @ [NL, NL] @ three_column_text @ [NL, NL] @ five_cells_text"

definition trailing_blank_text :: string where
  "trailing_blank_text = one_based_text @ [NL, NL]"

text \<open>
  For the round trip of the 10-column style: the cells of a line; a head field that is
  the decimal numeral, as \<^verbatim>\<open>str\<close> writes it, of 0 or of the position of one of the \<open>n\<close>
  lines; a well-formed line (ten cells, such a head, and a tag other than \<^verbatim>\<open>TOP\<close>); and
  the output line that repeats the fields \<^verbatim>\<open>word, lemma, ctag, tag, feats, head, rel\<close> of
  the input cells after the position and before the two underscores.
\<close>

definition line_cells :: "string option \<Rightarrow> string \<Rightarrow> string list" where
  "line_cells cell_separator line =
     (case py_split cell_separator line of Inl e \<Rightarrow> [] | Inr cells \<Rightarrow> cells)"

definition canonical_head :: "nat \<Rightarrow> string \<Rightarrow> bool" where
  "canonical_head n s =
     (case py_int s of None \<Rightarrow> False | Some h \<Rightarrow> 0 \<le> h \<and> h \<le> int n \<and> show_int h = s)"

definition conll10_line_ok :: "nat \<Rightarrow> string option \<Rightarrow> string \<Rightarrow> bool" where
  "conll10_line_ok n cell_separator line =
     (length (line_cells cell_separator line) = 10 \<and>
      canonical_head n (line_cells cell_separator line ! 6) \<and>
      line_cells cell_separator line ! 4 \<noteq> ''TOP'')"

definition round_trip_line :: "int \<Rightarrow> string list \<Rightarrow> string" where
  "round_trip_line i cells =
     show_int i @ [TAB] @ cells ! 1 @ [TAB] @ cells ! 2 @ [TAB] @ cells ! 3 @ [TAB] @ cells ! 4
       @ [TAB] @ cells ! 5 @ [TAB] @ cells ! 6 @ [TAB] @ cells ! 7 @ [TAB] @ ''_'' @ [TAB]
       @ ''_'' @ [NL]"

text \<open>
  A two-token record in the 10-column style, its serialisation, and a one-token record
  whose tag is \<^verbatim>\<open>TOP\<close>.
\<close>

definition conll10_text :: string where
  "conll10_text =
     ''1 dogs dog N NNS _ 2 SUBJ _ _'' @ [NL] @ ''2 bark bark V VBP _ 0 ROOT _ _'' @ [NL]"

definition conll10_output :: string where
  "conll10_output =
     ''1'' @ [TAB] @ ''dogs'' @ [TAB] @ ''dog'' @ [TAB] @ ''N'' @ [TAB] @ ''NNS'' @ [TAB] @ ''_''
       @ [TAB] @ ''2'' @ [TAB] @ ''SUBJ'' @ [TAB] @ ''_'' @ [TAB] @ ''_'' @ [NL] @
     ''2'' @ [TAB] @ ''bark'' @ [TAB] @ ''bark'' @ [TAB] @ ''V'' @ [TAB] @ ''VBP'' @ [TAB] @ ''_''
       @ [TAB] @ ''0'' @ [TAB] @ ''ROOT'' @ [TAB] @ ''_'' @ [TAB] @ ''_'' @ [NL]"

definition conll10_top_text :: string where
  "conll10_top_text = ''1 top top X TOP _ 0 ROOT _ _''"

section \<open>Basic facts about the node dictionary\<close>

lemma map_of_None_iff_not_key: "map_of al k = None \<longleftrightarrow> k \<notin> set (map fst al)"
  by (simp add: map_of_eq_None_iff)

lemma nodes_getitem_present:
  "map_of (nodes g) k = Some n \<Longrightarrow> nodes_getitem g k = (n, g)"
  by (simp add: nodes_getitem_def)

lemma nodes_getitem_absent:
  "map_of (nodes g) k = None \<Longrightarrow>
     nodes_getitem g k = (default_node, g\<lparr>nodes := nodes g @ [(k, default_node)]\<rparr>)"
  by (simp add: nodes_getitem_def)

lemma map_of_append_absent:
  "map_of al k = None \<Longrightarrow> map_of (al @ [(k, v)]) = (map_of al)(k \<mapsto> v)"
  by (rule ext) (auto simp: map_add_def split: option.splits)

lemma update_absent: "map_of al k = None \<Longrightarrow> AList.update k v (al @ [(k, w)]) = al @ [(k, v)]"
  by (induction al) (auto split: if_splits)

lemma nodes_item_update_present:
  "map_of (nodes g) k = Some n \<Longrightarrow>
     nodes_item_update g k m = g\<lparr>nodes := AList.update k (update_node n m) (nodes g)\<rparr>"
  by (simp add: nodes_item_update_def nodes_getitem_def)

lemma nodes_item_update_absent:
  "map_of (nodes g) k = None \<Longrightarrow>
     nodes_item_update g k m = g\<lparr>nodes := nodes g @ [(k, update_node default_node m)]\<rparr>"
  by (simp add: nodes_item_update_def nodes_getitem_def update_absent)

lemma empty_graph_nodes:
  "nodes empty_graph = [(0, update_node default_node top_fields)]"
  by (simp add: empty_graph_def nodes_item_update_absent)

lemma empty_graph_root: "root empty_graph = None"
  by (simp add: empty_graph_def nodes_item_update_absent)

section \<open>Lookup against containment\<close>

text \<open>
  C9. \<^verbatim>\<open>contains_address(a)\<close> is true exactly when \<open>a\<close> is a key of the node mapping; it is
  a pure query (the \<^verbatim>\<open>in\<close> test does not call the factory), so it changes nothing.
  \<^verbatim>\<open>get_by_address(a)\<close> on an absent address returns the empty placeholder made by the
  factory and stores it under \<open>a\<close>: afterwards \<open>a\<close> is a key, every other address holds
  the node it held before, and the root is the same. On a present address it returns the
  stored node and leaves the graph as it is.
\<close>

theorem get_by_address_creates_contains_address_does_not:
  "(contains_address g a \<longleftrightarrow> a \<in> fst ` set (nodes g)) \<and>
   (\<not> contains_address g a \<longrightarrow>
      fst (get_by_address g a) = default_node \<and>
      nodes (snd (get_by_address g a)) = nodes g @ [(a, default_node)] \<and>
      root (snd (get_by_address g a)) = root g \<and>
      contains_address (snd (get_by_address g a)) a \<and>
      map_of (nodes (snd (get_by_address g a))) a = Some default_node \<and>
      (\<forall>b. b \<noteq> a \<longrightarrow>
         map_of (nodes (snd (get_by_address g a))) b = map_of (nodes g) b)) \<and>
   (contains_address g a \<longrightarrow>
      snd (get_by_address g a) = g \<and>
      map_of (nodes g) a = Some (fst (get_by_address g a)))"
proof (intro conjI impI)
  show "contains_address g a \<longleftrightarrow> a \<in> fst ` set (nodes g)"
    by (simp add: contains_address_def)
next
  assume absent: "\<not> contains_address g a"
  then have none: "map_of (nodes g) a = None"
    by (simp add: contains_address_def map_of_eq_None_iff)
  have eq: "get_by_address g a = (default_node, g\<lparr>nodes := nodes g @ [(a, default_node)]\<rparr>)"
    using none by (simp add: get_by_address_def nodes_getitem_absent)
  show "fst (get_by_address g a) = default_node" by (simp add: eq)
  show "nodes (snd (get_by_address g a)) = nodes g @ [(a, default_node)]" by (simp add: eq)
  show "root (snd (get_by_address g a)) = root g" by (simp add: eq)
  show "contains_address (snd (get_by_address g a)) a"
    by (simp add: eq contains_address_def)
  show "map_of (nodes (snd (get_by_address g a))) a = Some default_node"
    using map_of_append_absent [OF none, of default_node] by (simp add: eq del: map_of_append)
  show "\<forall>b. b \<noteq> a \<longrightarrow> map_of (nodes (snd (get_by_address g a))) b = map_of (nodes g) b"
    using map_of_append_absent [OF none, of default_node] by (simp add: eq del: map_of_append)
next
  assume present: "contains_address g a"
  then have "map_of (nodes g) a \<noteq> None"
    by (simp add: contains_address_def map_of_eq_None_iff)
  then obtain n where some: "map_of (nodes g) a = Some n"
    by blast
  have eq: "get_by_address g a = (n, g)"
    using some by (simp add: get_by_address_def nodes_getitem_present)
  show "snd (get_by_address g a) = g" by (simp add: eq)
  show "map_of (nodes g) a = Some (fst (get_by_address g a))" by (simp add: eq some)
qed

theorem get_by_address_creates_contains_address_does_not_witness:
  "\<not> contains_address empty_graph 5 \<and>
   fst (get_by_address empty_graph 5) = default_node \<and>
   contains_address (snd (get_by_address empty_graph 5)) 5 \<and>
   contains_address empty_graph 0 \<and>
   snd (get_by_address empty_graph 0) = empty_graph"
  using get_by_address_creates_contains_address_does_not [of empty_graph 5]
    get_by_address_creates_contains_address_does_not [of empty_graph 0]
  by (simp add: contains_address_def empty_graph_nodes)

section \<open>Adding a node never overwrites\<close>

text \<open>
  C10. For a node record \<open>n\<close> with \<^verbatim>\<open>n['address'] = a\<close>: when the graph already has a
  node at \<open>a\<close> (the \<^verbatim>\<open>TOP\<close> sentinel at 0 included), \<^verbatim>\<open>add_node\<close> returns the graph as
  it was. When \<open>a\<close> is absent, a node is created at \<open>a\<close> and updated with the fields
  of \<open>n\<close>: it holds every field of \<open>n\<close>, and the empty dependents dictionary of the
  factory when \<open>n\<close> brings no \<^verbatim>\<open>'deps'\<close>; the nodes at the other addresses and the
  root are untouched.
\<close>

theorem add_node_refuses_to_overwrite:
  assumes "address n = Some a"
  shows "(contains_address g a \<longrightarrow> add_node g n = Inr g) \<and>
         (\<not> contains_address g a \<longrightarrow>
            add_node g n =
              Inr (g\<lparr>nodes := nodes g @
                     [(a, n\<lparr>deps := (case deps n of None \<Rightarrow> Some (DepsMap [])
                                       | Some d \<Rightarrow> Some d)\<rparr>)]\<rparr>))"
proof (intro conjI impI)
  assume "contains_address g a"
  then show "add_node g n = Inr g"
    using assms by (simp add: add_node_def)
next
  assume absent: "\<not> contains_address g a"
  then have none: "map_of (nodes g) a = None"
    by (simp add: contains_address_def map_of_eq_None_iff)
  have "update_node default_node n =
          n\<lparr>deps := (case deps n of None \<Rightarrow> Some (DepsMap []) | Some d \<Rightarrow> Some d)\<rparr>"
    by (simp add: update_node_def default_node_def override_def split: option.splits)
  then show "add_node g n =
      Inr (g\<lparr>nodes := nodes g @
             [(a, n\<lparr>deps := (case deps n of None \<Rightarrow> Some (DepsMap [])
                               | Some d \<Rightarrow> Some d)\<rparr>)]\<rparr>)"
    using assms absent none by (simp add: add_node_def nodes_item_update_absent)
qed

theorem add_node_refuses_to_overwrite_witness:
  "add_node empty_graph (default_node\<lparr>address := Some 0, word := Some (VStr ''John'')\<rparr>)
     = Inr empty_graph \<and>
   add_node empty_graph (default_node\<lparr>address := Some 1, word := Some (VStr ''John'')\<rparr>)
     = Inr (empty_graph\<lparr>nodes := nodes empty_graph @
              [(1, default_node\<lparr>address := Some 1, word := Some (VStr ''John'')\<rparr>)]\<rparr>)"
  using add_node_refuses_to_overwrite
          [of "default_node\<lparr>address := Some 0, word := Some (VStr ''John'')\<rparr>" 0 empty_graph]
        add_node_refuses_to_overwrite
          [of "default_node\<lparr>address := Some 1, word := Some (VStr ''John'')\<rparr>" 1 empty_graph]
  by (simp add: contains_address_def empty_graph_nodes default_node_def)

section \<open>Redirecting arcs keeps the labels and drops the dependents\<close>

lemma redirect_node_labels:
  assumes "deps n = Some (DepsMap m)" and "\<forall>r \<in> set (map fst m). r \<notin> originals"
  shows "redirect_node originals redirect n = Inr (n\<lparr>deps := Some (DepsList (map fst m))\<rparr>)"
proof -
  have "map (\<lambda>dep. if dep \<in> originals then redirect else dep) (map fst m) = map fst m"
    using assms(2) by (induction m) auto
  then show ?thesis
    using assms(1) by (simp add: redirect_node_def deps_iter_def)
qed

text \<open>
  C1. The docstring of \<^verbatim>\<open>redirect_arcs\<close> and the claim say that every dependent address
  in \<open>originals\<close> becomes \<open>redirect\<close>. The loop \<^verbatim>\<open>for dep in node['deps']\<close> iterates a
  dictionary, so \<open>dep\<close> is a relation label, never a dependent: the new list holds the
  labels and the dependents are gone. On the chain record, node 2 has the dependent 3
  under the label \<open>Y\<close>; after \<^verbatim>\<open>redirect_arcs({3}, 5)\<close> its \<^verbatim>\<open>'deps'\<close> is the list
  \<^verbatim>\<open>['Y']\<close>, where the claim has \<^verbatim>\<open>[5]\<close>.
\<close>

theorem redirect_arcs_on_chain_yields_labels:
  "\<not> isl (DependencyGraph (Some (Str chain_text)) None False None) \<and>
   map (\<lambda>(k, n). (k, deps n)) (nodes chain_graph) =
     [(0, Some (DepsMap [(VStr ''ROOT'', [1])])), (1, Some (DepsMap [(VStr ''X'', [2])])),
      (2, Some (DepsMap [(VStr ''Y'', [3])])), (3, Some (DepsMap []))] \<and>
   \<not> isl (redirect_arcs chain_graph {VInt 3} (VInt 5)) \<and>
   map (\<lambda>(k, n). (k, deps n)) (nodes (projr (redirect_arcs chain_graph {VInt 3} (VInt 5)))) =
     [(0, Some (DepsList [VStr ''ROOT''])), (1, Some (DepsList [VStr ''X''])),
      (2, Some (DepsList [VStr ''Y''])), (3, Some (DepsList []))]"
  unfolding chain_graph_def chain_text_def by code_simp

section \<open>Left and right dependents\<close>

lemma length_filter_less_greater:
  "length (filter (\<lambda>i. i < x) xs) + length (filter (\<lambda>i. i > x) xs)
     = length (filter (\<lambda>i. i \<noteq> (x::int)) xs)"
  by (induction xs) auto

lemma length_filter_neq_eq:
  "length (filter (\<lambda>i. i \<noteq> x) xs) + length (filter (\<lambda>i. i = x) xs) = length xs"
  by (induction xs) auto

lemma left_children_DepsMap:
  assumes "map_of (nodes g) a = Some n" and "address n = Some index"
    and "deps n = Some (DepsMap m)"
  shows "left_children g a =
           (Inr (sum_list (map (\<lambda>r. length (filter (\<lambda>i. i < index) (bucket m r)))
                               (filter (\<lambda>r. r \<noteq> VStr ''_'') (map fst m)))), g)"
  using assms by (simp add: left_children_def nodes_getitem_present)

lemma right_children_DepsMap:
  assumes "map_of (nodes g) a = Some n" and "address n = Some index"
    and "deps n = Some (DepsMap m)"
  shows "right_children g a =
           (Inr (sum_list (map (\<lambda>r. length (filter (\<lambda>i. i > index) (bucket m r)))
                               (filter (\<lambda>r. r \<noteq> VStr ''_'') (map fst m)))), g)"
  using assms by (simp add: right_children_def nodes_getitem_present)

text \<open>
  C6, as amended. For a node present at \<open>a\<close> that has an \<^verbatim>\<open>'address'\<close> field and a
  relation-keyed \<^verbatim>\<open>'deps'\<close>, both counts are returned, the graph is unchanged, and
  left plus right plus the number of entries equal to the node's own address is the
  total number of dependent entries over the buckets whose label is not \<^verbatim>\<open>"_"\<close>. So the
  sum is the total exactly when the node is not its own dependent in such a bucket.
\<close>

theorem left_plus_right_children:
  assumes "map_of (nodes g) a = Some n" and "address n = Some index"
    and "deps n = Some (DepsMap m)"
  shows "\<exists>l r. left_children g a = (Inr l, g) \<and> right_children g a = (Inr r, g) \<and>
               l + r + own_entries index m = total_dependents m \<and>
               (l + r = total_dependents m \<longleftrightarrow> own_entries index m = 0)"
proof -
  let ?ks = "filter (\<lambda>r. r \<noteq> VStr ''_'') (map fst m)"
  let ?l = "sum_list (map (\<lambda>r. length (filter (\<lambda>i. i < index) (bucket m r))) ?ks)"
  let ?r = "sum_list (map (\<lambda>r. length (filter (\<lambda>i. i > index) (bucket m r))) ?ks)"
  have "?l + ?r = sum_list (map (\<lambda>r. length (filter (\<lambda>i. i \<noteq> index) (bucket m r))) ?ks)"
    by (simp add: sum_list_addf [symmetric] length_filter_less_greater)
  then have "?l + ?r + own_entries index m =
      sum_list (map (\<lambda>r. length (filter (\<lambda>i. i \<noteq> index) (bucket m r))
                        + length (filter (\<lambda>i. i = index) (bucket m r))) ?ks)"
    by (simp add: own_entries_def sum_list_addf)
  then have total: "?l + ?r + own_entries index m = total_dependents m"
    by (simp add: length_filter_neq_eq total_dependents_def)
  then have iff: "?l + ?r = total_dependents m \<longleftrightarrow> own_entries index m = 0"
    by arith
  show ?thesis
  proof (intro exI conjI)
    show "left_children g a = (Inr ?l, g)"
      by (rule left_children_DepsMap [OF assms])
    show "right_children g a = (Inr ?r, g)"
      by (rule right_children_DepsMap [OF assms])
    show "?l + ?r + own_entries index m = total_dependents m"
      by (rule total)
    show "?l + ?r = total_dependents m \<longleftrightarrow> own_entries index m = 0"
      by (rule iff)
  qed
qed

theorem left_plus_right_children_witness:
  "map_of (nodes chain_graph) 1 =
     Some \<lparr>deps = Some (DepsMap [(VStr ''X'', [2])]), address = Some 1,
           word = Some (VStr ''a''), lemma_fld = Some (VStr ''a''), ctag = Some (VStr ''b''),
           tag = Some (VStr ''b''), feats = Some (VStr []), head = Some (VInt 0),
           rel = Some (VStr ''ROOT'')\<rparr> \<and>
   (\<exists>l r. left_children chain_graph 1 = (Inr l, chain_graph) \<and>
          right_children chain_graph 1 = (Inr r, chain_graph) \<and>
          l + r + own_entries 1 [(VStr ''X'', [2])] = total_dependents [(VStr ''X'', [2])] \<and>
          (l + r = total_dependents [(VStr ''X'', [2])]
             \<longleftrightarrow> own_entries 1 [(VStr ''X'', [2])] = 0))"
proof -
  have node: "map_of (nodes chain_graph) 1 =
     Some \<lparr>deps = Some (DepsMap [(VStr ''X'', [2])]), address = Some 1,
           word = Some (VStr ''a''), lemma_fld = Some (VStr ''a''), ctag = Some (VStr ''b''),
           tag = Some (VStr ''b''), feats = Some (VStr []), head = Some (VInt 0),
           rel = Some (VStr ''ROOT'')\<rparr>"
    unfolding chain_graph_def chain_text_def by code_simp
  show ?thesis
    using node left_plus_right_children [OF node, of 1 "[(VStr ''X'', [2])]"] by simp
qed

text \<open>
  The claim as stated fails where a node is its own dependent. In the record whose
  second line names address 2 as its head, node 2 has one dependent entry (itself, under
  \<open>X\<close>), and it is neither a left nor a right child: both counts are 0.
\<close>

theorem left_plus_right_children_counterexample:
  "\<not> isl (DependencyGraph (Some (Str self_head_text)) None False None) \<and>
   contains_address self_head_graph 2 \<and>
   map_option deps (map_of (nodes self_head_graph) 2) = Some (Some (DepsMap [(VStr ''X'', [2])])) \<and>
   total_dependents [(VStr ''X'', [2])] = 1 \<and>
   fst (left_children self_head_graph 2) = Inr 0 \<and>
   fst (right_children self_head_graph 2) = Inr 0"
  unfolding self_head_graph_def self_head_text_def by code_simp

section \<open>Serialising: one line per node not tagged TOP\<close>


lemma format_template_3:
  "has_fields 3 n \<Longrightarrow> format_template template_3 i n = Inr (conll_line 3 i n)"
  by (auto simp: has_fields_def template_3_def format_piece_def conll_line_def field_text_def)

lemma format_template_4:
  "has_fields 4 n \<Longrightarrow> format_template template_4 i n = Inr (conll_line 4 i n)"
  by (auto simp: has_fields_def template_4_def format_piece_def conll_line_def field_text_def)

lemma format_template_10:
  "has_fields 10 n \<Longrightarrow> format_template template_10 i n = Inr (conll_line 10 i n)"
  by (auto simp: has_fields_def template_10_def format_piece_def conll_line_def field_text_def)

lemma format_selected_template:
  assumes "select_template style = Inr t" and "has_fields style n"
  shows "format_template t i n = Inr (conll_line style i n)"
  using assms format_template_3 [of n i] format_template_4 [of n i] format_template_10 [of n i]
  by (auto simp: select_template_def split: if_splits)

lemma join_lines_all:
  assumes "\<forall>item \<in> set items. tag (snd item) \<noteq> None \<and>
             (not_top item \<longrightarrow> format_template t (fst item) (snd item) = Inr (line (fst item) (snd item)))"
  shows "join_lines t items = Inr (concat (map (\<lambda>(i, n). line i n) (filter not_top items)))"
  using assms
proof (induction items)
  case Nil
  then show ?case by simp
next
  case (Cons item items)
  obtain i n where item: "item = (i, n)" by (cases item)
  from Cons.prems obtain tg where tg: "tag n = Some tg"
    by (auto simp: item)
  have rest: "join_lines t items = Inr (concat (map (\<lambda>(i, n). line i n) (filter not_top items)))"
    using Cons by simp
  show ?case
  proof (cases "tg = VStr ''TOP''")
    case True
    then have "\<not> not_top (i, n)" using tg by (simp add: not_top_def)
    then show ?thesis using True tg rest by (simp add: item)
  next
    case False
    then have nt: "not_top (i, n)" using tg by (simp add: not_top_def)
    with Cons.prems have "format_template t i n = Inr (line i n)"
      by (simp add: item)
    then show ?thesis using False tg rest nt by (simp add: item)
  qed
qed

text \<open>
  C8, as amended. A style other than 3, 4 and 10 fails with the unsupported-format error,
  for every graph. For a style among them, on a graph in which every node has a
  \<^verbatim>\<open>'tag'\<close> and every node whose tag is not \<^verbatim>\<open>'TOP'\<close> has the fields of the template:
  the result is the concatenation, in ascending order of address, of one line per node
  whose tag is not \<^verbatim>\<open>'TOP'\<close>, each rendered by the template of the style and ended by a
  newline. The sentinel is left out because its tag is \<^verbatim>\<open>'TOP'\<close>, and so is any other
  node with that tag.
\<close>

theorem to_conll_one_line_per_untagged_node:
  "(style \<notin> {3, 4, 10} \<longrightarrow> to_conll g style = Inl (ValueError_format style)) \<and>
   (style \<in> {3, 4, 10} \<longrightarrow>
    (\<forall>item \<in> set (nodes g).
        tag (snd item) \<noteq> None \<and> (not_top item \<longrightarrow> has_fields style (snd item))) \<longrightarrow>
      to_conll g style =
        Inr (concat (map (\<lambda>(i, n). conll_line style i n)
                         (filter not_top (sort_key fst (nodes g))))) \<and>
      sorted (map fst (filter not_top (sort_key fst (nodes g)))) \<and>
      mset (filter not_top (sort_key fst (nodes g))) = mset (filter not_top (nodes g)))"
proof (intro conjI impI)
  assume "style \<notin> {3, 4, 10}"
  then show "to_conll g style = Inl (ValueError_format style)"
    by (simp add: to_conll_def select_template_def)
next
  assume style: "style \<in> {3, 4, 10}"
    and fields: "\<forall>item \<in> set (nodes g).
        tag (snd item) \<noteq> None \<and> (not_top item \<longrightarrow> has_fields style (snd item))"
  from style obtain t where t: "select_template style = Inr t"
    by (auto simp: select_template_def)
  have "\<forall>item \<in> set (sort_key fst (nodes g)). tag (snd item) \<noteq> None \<and>
          (not_top item \<longrightarrow>
             format_template t (fst item) (snd item) = Inr (conll_line style (fst item) (snd item)))"
    using fields format_selected_template [OF t] by simp
  then have "join_lines t (sort_key fst (nodes g)) =
      Inr (concat (map (\<lambda>(i, n). conll_line style i n) (filter not_top (sort_key fst (nodes g)))))"
    by (rule join_lines_all)
  then show "to_conll g style =
        Inr (concat (map (\<lambda>(i, n). conll_line style i n)
                         (filter not_top (sort_key fst (nodes g)))))"
    by (simp add: to_conll_def t)
next
  show "sorted (map fst (filter not_top (sort_key fst (nodes g))))"
    by (simp add: sorted_filter)
next
  show "mset (filter not_top (sort_key fst (nodes g))) = mset (filter not_top (nodes g))"
    by simp
qed

theorem to_conll_one_line_per_untagged_node_witness:
  "(5::int) \<notin> {3, 4, 10} \<and> to_conll chain_graph 5 = Inl (ValueError_format 5) \<and>
   (4::int) \<in> {3, 4, 10} \<and>
   list_all (\<lambda>item. tag (snd item) \<noteq> None \<and> (not_top item \<longrightarrow> has_fields 4 (snd item)))
     (nodes chain_graph) \<and>
   to_conll chain_graph 4 = Inr chain_conll_4"
proof -
  have fields: "\<forall>item \<in> set (nodes chain_graph).
        tag (snd item) \<noteq> None \<and> (not_top item \<longrightarrow> has_fields 4 (snd item))"
    unfolding chain_graph_def chain_text_def by code_simp
  have lines: "concat (map (\<lambda>(i, n). conll_line 4 i n)
                         (filter not_top (sort_key fst (nodes chain_graph)))) = chain_conll_4"
    unfolding chain_graph_def chain_text_def chain_conll_4_def by code_simp
  show ?thesis
    using fields lines to_conll_one_line_per_untagged_node [of 5 chain_graph]
      to_conll_one_line_per_untagged_node [of 4 chain_graph]
    by (simp add: list_all_iff)
qed

text \<open>
  The claim as stated fails on two kinds of graph. A token whose tag is \<^verbatim>\<open>TOP\<close> is not
  the sentinel, yet it gets no line: the one-token record gives the empty string. And a
  placeholder node, created for a head that no line describes, has no \<^verbatim>\<open>'tag'\<close>: the
  test \<^verbatim>\<open>node['tag'] != 'TOP'\<close> raises \<^verbatim>\<open>KeyError\<close> and nothing is returned.
\<close>

theorem to_conll_counterexample:
  "\<not> isl (DependencyGraph (Some (Str top_tagged_text)) None False None) \<and>
   map fst (nodes top_tagged_graph) = [0, 1] \<and>
   to_conll top_tagged_graph 4 = Inr [] \<and>
   \<not> isl (DependencyGraph (Some (Str dangling_head_text)) None False None) \<and>
   map fst (nodes dangling_head_graph) = [0, 1, 2, 7] \<and>
   to_conll dangling_head_graph 4 = Inl KeyError"
  unfolding top_tagged_graph_def top_tagged_text_def dangling_head_graph_def dangling_head_text_def
  by code_simp

section \<open>The extractor is chosen by the first line\<close>

lemma parse_lines_Some:
  "parse_lines (Some ext) zb sep i lines g = parse_lines_with ext zb sep i lines g"
  by (induction lines arbitrary: i g)
     (simp_all add: select_extractor_def split: sum.splits)

lemma extractors_cases:
  "extractors k = (if k \<in> {3, 4, 10} then Some (builtin_extractor k) else None)"
  by (simp add: extractors_def builtin_extractor_def)

lemma parse_lines_None:
  "parse_lines None zb sep i (line # lines) g =
     (case py_split sep line of
        Inl e \<Rightarrow> Inl e
      | Inr cells \<Rightarrow>
          if length cells \<in> {3, 4, 10}
          then parse_lines_with (builtin_extractor (length cells)) zb sep i (line # lines) g
          else Inl (ValueError_format (int (length cells))))"
  by (simp add: select_extractor_def extractors_cases parse_lines_Some split: sum.splits)

text \<open>
  C5. Without a custom extractor, a parse with at least one non-blank line is decided by
  the number of cells of the first such line: when it is 3, 4 or 10, the parse is the
  loop that applies the built-in extractor for that number to every line (the first one
  and all the later ones, whatever their own number of cells); otherwise it fails with
  the unsupported-format error carrying that number. With no non-blank line no extractor
  is chosen and only the root check runs.
\<close>

theorem first_line_selects_extractor:
  "parse g input None zb sep =
     (case input_lines input of
        [] \<Rightarrow> find_root g
      | line # rest \<Rightarrow>
          (case py_split sep line of
             Inl e \<Rightarrow> Inl e
           | Inr cells \<Rightarrow>
               if length cells \<in> {3, 4, 10}
               then (case parse_lines_with (builtin_extractor (length cells)) zb sep 1
                            (line # rest) g of
                       Inl e \<Rightarrow> Inl e
                     | Inr g' \<Rightarrow> find_root g')
               else Inl (ValueError_format (int (length cells)))))"
proof (cases "input_lines input")
  case Nil
  then show ?thesis by (simp add: parse_def)
next
  case (Cons line rest)
  show ?thesis
    unfolding parse_def Cons parse_lines_None
    by (simp split: sum.splits)
qed

theorem first_line_selects_extractor_witness:
  "parse empty_graph (Str mixed_text) None False None = Inl ValueError_unpack \<and>
   parse_lines_with extract_4_cells False None 1 (input_lines (Str mixed_text)) empty_graph
     = Inl ValueError_unpack \<and>
   parse empty_graph (Str five_cells_text) None False None = Inl (ValueError_format 5)"
proof -
  have a: "(case input_lines (Str mixed_text) of
        [] \<Rightarrow> find_root empty_graph
      | line # rest \<Rightarrow>
          (case py_split None line of
             Inl e \<Rightarrow> Inl e
           | Inr cells \<Rightarrow>
               if length cells \<in> {3, 4, 10}
               then (case parse_lines_with (builtin_extractor (length cells)) False None 1
                            (line # rest) empty_graph of
                       Inl e \<Rightarrow> Inl e
                     | Inr g' \<Rightarrow> find_root g')
               else Inl (ValueError_format (int (length cells))))) = Inl ValueError_unpack"
    unfolding mixed_text_def by code_simp
  have b: "parse_lines_with extract_4_cells False None 1 (input_lines (Str mixed_text)) empty_graph
     = Inl ValueError_unpack"
    unfolding mixed_text_def by code_simp
  have c: "(case input_lines (Str five_cells_text) of
        [] \<Rightarrow> find_root empty_graph
      | line # rest \<Rightarrow>
          (case py_split None line of
             Inl e \<Rightarrow> Inl e
           | Inr cells \<Rightarrow>
               if length cells \<in> {3, 4, 10}
               then (case parse_lines_with (builtin_extractor (length cells)) False None 1
                            (line # rest) empty_graph of
                       Inl e \<Rightarrow> Inl e
                     | Inr g' \<Rightarrow> find_root g')
               else Inl (ValueError_format (int (length cells))))) = Inl (ValueError_format 5)"
    unfolding five_cells_text_def by code_simp
  show ?thesis
    using a b c
    by (simp only: first_line_selects_extractor [of empty_graph _ False None] simp_thms)
qed

section \<open>One step of the parser, on the node dictionary seen as a map\<close>

lemma nodes_getitem_map:
  "fst (nodes_getitem g k) = node_at g k"
  "map_of (nodes (snd (nodes_getitem g k))) = (map_of (nodes g))(k \<mapsto> node_at g k)"
  "root (snd (nodes_getitem g k)) = root g"
  by (auto simp: nodes_getitem_def node_at_def map_add_def fun_eq_iff split: option.splits)

lemma nodes_getitem_distinct:
  "distinct (map fst (nodes g)) \<Longrightarrow> distinct (map fst (nodes (snd (nodes_getitem g k))))"
  by (auto simp: nodes_getitem_def map_of_eq_None_iff split: option.splits)

lemma nodes_item_update_map:
  "map_of (nodes (nodes_item_update g k m)) = (map_of (nodes g))(k \<mapsto> update_node (node_at g k) m)"
  "root (nodes_item_update g k m) = root g"
  by (auto simp: nodes_item_update_def nodes_getitem_def node_at_def update_conv' map_add_def
      fun_eq_iff split: option.splits)

lemma nodes_item_update_distinct:
  "distinct (map fst (nodes g)) \<Longrightarrow> distinct (map fst (nodes (nodes_item_update g k m)))"
  by (auto simp: nodes_item_update_def nodes_getitem_def map_of_eq_None_iff
      intro!: distinct_update split: option.splits)

lemma arc_append_map:
  assumes "arc_append g h r i = Inr g'"
  shows "\<exists>m. deps (node_at g h) = Some (DepsMap m) \<and>
             map_of (nodes g') =
               (map_of (nodes g))(h \<mapsto> (node_at g h)
                  \<lparr>deps := Some (DepsMap (AList.update r (bucket m r @ [i]) m))\<rparr>)"
    and "root g' = root g"
  using assms
  by (auto simp: arc_append_def nodes_getitem_def node_at_def update_conv' map_add_def
      fun_eq_iff split: option.splits deps.splits)

lemma arc_append_distinct:
  "arc_append g h r i = Inr g' \<Longrightarrow> distinct (map fst (nodes g)) \<Longrightarrow> distinct (map fst (nodes g'))"
  by (auto simp: arc_append_def nodes_getitem_def map_of_eq_None_iff
      intro!: distinct_update split: option.splits deps.splits)

lemma update_node_line_fields:
  "(update_node n (line_fields i fs h))\<lparr>deps := None\<rparr> = line_fields i fs h"
  "deps (update_node n (line_fields i fs h)) = deps n"
  by (auto simp: update_node_def line_fields_def override_def split: prod.splits)

lemma store_line_unfold:
  assumes "store_line zb i fs g = Inr g'"
  shows "\<exists>h. stored_head zb fs = Some h \<and>
             arc_append (nodes_item_update g i (line_fields i fs h)) h (fields_rel fs) i = Inr g'"
  using assms
  by (auto simp: store_line_def stored_head_def fields_rel_def Let_def split: prod.splits sum.splits)

lemma store_line_view:
  assumes "store_line zb i fs g = Inr g'"
  shows "\<exists>h. stored_head zb fs = Some h \<and>
             fields_view g' =
               (\<lambda>k. if k = i then Some (line_fields i fs h)
                    else if k = h \<and> fields_view g k = None then Some blank_node
                    else fields_view g k)"
proof -
  from store_line_unfold [OF assms] obtain h where
    h: "stored_head zb fs = Some h" and
    arc: "arc_append (nodes_item_update g i (line_fields i fs h)) h (fields_rel fs) i = Inr g'"
    by blast
  let ?g1 = "nodes_item_update g i (line_fields i fs h)"
  from arc_append_map(1) [OF arc] obtain m where
    m: "deps (node_at ?g1 h) = Some (DepsMap m)" and
    map': "map_of (nodes g') =
             (map_of (nodes ?g1))(h \<mapsto> (node_at ?g1 h)
                \<lparr>deps := Some (DepsMap (AList.update (fields_rel fs) (bucket m (fields_rel fs) @ [i]) m))\<rparr>)"
    by blast
  have "fields_view g' k =
          (if k = i then Some (line_fields i fs h)
           else if k = h \<and> fields_view g k = None then Some blank_node
           else fields_view g k)" for k
    unfolding fields_view_def map' nodes_item_update_map
    by (auto simp: node_at_def nodes_item_update_map update_node_line_fields blank_node_def
        split: option.splits)
  then show ?thesis using h by blast
qed

lemma store_line_root: "store_line zb i fs g = Inr g' \<Longrightarrow> root g' = root g"
  by (auto dest!: store_line_unfold simp: arc_append_map(2) nodes_item_update_map(2))

lemma store_line_distinct:
  "store_line zb i fs g = Inr g' \<Longrightarrow> distinct (map fst (nodes g)) \<Longrightarrow> distinct (map fst (nodes g'))"
  by (auto dest!: store_line_unfold intro: arc_append_distinct nodes_item_update_distinct)

section \<open>The loop over the lines, on the fields of the nodes\<close>

lemma parse_lines_with_ConsE:
  assumes "parse_lines_with ext zb sep i (l # ls) g = Inr g'"
  obtains fs g1 where "line_record ext sep l = Some fs"
    and "store_line zb i fs g = Inr g1"
    and "parse_lines_with ext zb sep (i + 1) ls g1 = Inr g'"
  using assms by (auto simp: line_record_def split: sum.splits)

lemma parse_lines_with_frame:
  assumes "parse_lines_with ext zb sep i lines g = Inr g'"
    and "k < i \<or> i + int (length lines) \<le> k" and "fields_view g k \<noteq> None"
  shows "fields_view g' k = fields_view g k"
  using assms
proof (induction lines arbitrary: i g)
  case Nil
  then show ?case by simp
next
  case (Cons l ls)
  from Cons.prems(1) obtain fs g1 where
    step: "store_line zb i fs g = Inr g1" and
    rest: "parse_lines_with ext zb sep (i + 1) ls g1 = Inr g'"
    by (rule parse_lines_with_ConsE)
  from store_line_view [OF step] Cons.prems(2,3) have same: "fields_view g1 k = fields_view g k"
    by auto
  have "fields_view g' k = fields_view g1 k"
  proof (rule Cons.IH [OF rest])
    show "k < i + 1 \<or> i + 1 + int (length ls) \<le> k" using Cons.prems(2) by auto
    show "fields_view g1 k \<noteq> None" using same Cons.prems(3) by simp
  qed
  with same show ?case by simp
qed

lemma parse_lines_with_fields:
  assumes "parse_lines_with ext zb sep i lines g = Inr g'" and "j < length lines"
  shows "\<exists>fs h. line_record ext sep (lines ! j) = Some fs \<and> stored_head zb fs = Some h \<and>
                fields_view g' (i + int j) = Some (line_fields (i + int j) fs h)"
  using assms
proof (induction lines arbitrary: i g j)
  case Nil
  then show ?case by simp
next
  case (Cons l ls)
  from Cons.prems(1) obtain fs g1 where
    rec: "line_record ext sep l = Some fs" and
    step: "store_line zb i fs g = Inr g1" and
    rest: "parse_lines_with ext zb sep (i + 1) ls g1 = Inr g'"
    by (rule parse_lines_with_ConsE)
  show ?case
  proof (cases j)
    case 0
    from store_line_view [OF step] obtain h where
      h: "stored_head zb fs = Some h" and at_i: "fields_view g1 i = Some (line_fields i fs h)"
      by auto
    have "fields_view g' i = fields_view g1 i"
      by (rule parse_lines_with_frame [OF rest]) (simp_all add: at_i)
    then show ?thesis using 0 rec h at_i by simp
  next
    case (Suc j')
    then have "j' < length ls" using Cons.prems(2) by simp
    from Cons.IH [OF rest this] show ?thesis using Suc by (simp add: algebra_simps)
  qed
qed

lemma parse_lines_with_keys:
  assumes "parse_lines_with ext zb sep i lines g = Inr g'" and "fields_view g' k \<noteq> None"
  shows "fields_view g k \<noteq> None \<or> (i \<le> k \<and> k < i + int (length lines)) \<or>
         (\<exists>j fs. j < length lines \<and> line_record ext sep (lines ! j) = Some fs \<and>
                 stored_head zb fs = Some k)"
  using assms
proof (induction lines arbitrary: i g)
  case Nil
  then show ?case by simp
next
  case (Cons l ls)
  from Cons.prems(1) obtain fs g1 where
    rec: "line_record ext sep l = Some fs" and
    step: "store_line zb i fs g = Inr g1" and
    rest: "parse_lines_with ext zb sep (i + 1) ls g1 = Inr g'"
    by (rule parse_lines_with_ConsE)
  from store_line_view [OF step] obtain h where
    h: "stored_head zb fs = Some h" and
    view1: "fields_view g1 =
               (\<lambda>k. if k = i then Some (line_fields i fs h)
                    else if k = h \<and> fields_view g k = None then Some blank_node
                    else fields_view g k)"
    by blast
  from Cons.IH [OF rest Cons.prems(2)] consider
      (old) "fields_view g1 k \<noteq> None"
    | (index) "i + 1 \<le> k \<and> k < i + 1 + int (length ls)"
    | (head) j fs' where "j < length ls" "line_record ext sep (ls ! j) = Some fs'"
        "stored_head zb fs' = Some k"
    by blast
  then show ?case
  proof cases
    case old
    show ?thesis
    proof (cases "k = i \<or> fields_view g k \<noteq> None")
      case True
      then show ?thesis by auto
    next
      case False
      with old view1 have "k = h" by (auto split: if_splits)
      with h rec have "0 < length (l # ls) \<and> line_record ext sep ((l # ls) ! 0) = Some fs \<and>
          stored_head zb fs = Some k" by simp
      then show ?thesis by blast
    qed
  next
    case index
    then show ?thesis by auto
  next
    case head
    then have "Suc j < length (l # ls) \<and> line_record ext sep ((l # ls) ! Suc j) = Some fs' \<and>
        stored_head zb fs' = Some k" by simp
    then show ?thesis by blast
  qed
qed

lemma parse_lines_with_root:
  "parse_lines_with ext zb sep i lines g = Inr g' \<Longrightarrow> root g' = root g"
  by (induction lines arbitrary: i g) (auto split: sum.splits dest: store_line_root)

lemma parse_lines_with_distinct:
  "parse_lines_with ext zb sep i lines g = Inr g' \<Longrightarrow> distinct (map fst (nodes g))
     \<Longrightarrow> distinct (map fst (nodes g'))"
  by (induction lines arbitrary: i g) (auto split: sum.splits dest: store_line_distinct)

section \<open>The dependents of the sentinel under ROOT\<close>

lemma contains_address_map: "contains_address g k \<longleftrightarrow> map_of (nodes g) k \<noteq> None"
  by (simp add: contains_address_def map_of_eq_None_iff)

lemma bucket_update:
  "bucket (AList.update r v m) r' = (if r' = r then v else bucket m r')"
  by (simp add: bucket_def update_conv')

lemma node_at_map:
  "map_of (nodes g') = (map_of (nodes g))(k \<mapsto> n) \<Longrightarrow>
     node_at g' k' = (if k' = k then n else node_at g k')"
  by (simp add: node_at_def)

lemma store_line_top_roots:
  assumes "store_line zb i fs g = Inr g'" and "top_roots g = Some rs"
  shows "top_roots g' =
           Some (if stored_head zb fs = Some 0 \<and> fields_rel fs = VStr ''ROOT''
                 then rs @ [i] else rs)"
proof -
  from store_line_unfold [OF assms(1)] obtain h where
    h: "stored_head zb fs = Some h" and
    arc: "arc_append (nodes_item_update g i (line_fields i fs h)) h (fields_rel fs) i = Inr g'"
    by blast
  let ?g1 = "nodes_item_update g i (line_fields i fs h)"
  have deps1: "deps (node_at ?g1 k) = deps (node_at g k)" for k
    by (simp add: node_at_map [OF nodes_item_update_map(1)] update_node_line_fields)
  from arc_append_map(1) [OF arc] obtain m where
    m: "deps (node_at ?g1 h) = Some (DepsMap m)" and
    map': "map_of (nodes g') =
             (map_of (nodes ?g1))(h \<mapsto> (node_at ?g1 h)
                \<lparr>deps := Some (DepsMap (AList.update (fields_rel fs) (bucket m (fields_rel fs) @ [i]) m))\<rparr>)"
    by blast
  show ?thesis
  proof (cases "h = 0")
    case True
    with m deps1 assms(2) have rs: "bucket m (VStr ''ROOT'') = rs"
      by (auto simp: top_roots_def split: option.splits deps.splits)
    show ?thesis
      using True h rs by (simp add: top_roots_def node_at_map [OF map'] bucket_update)
  next
    case False
    then show ?thesis
      using h assms(2) deps1 [of 0] by (simp add: top_roots_def node_at_map [OF map'])
  qed
qed

lemma parse_lines_with_top_roots:
  assumes "parse_lines_with ext zb sep i lines g = Inr g'" and "top_roots g = Some rs"
  shows "top_roots g' = Some (rs @ root_lines ext zb sep i lines)"
  using assms
proof (induction lines arbitrary: i g rs)
  case Nil
  then show ?case by simp
next
  case (Cons l ls)
  from Cons.prems(1) obtain fs g1 where
    rec: "line_record ext sep l = Some fs" and
    step: "store_line zb i fs g = Inr g1" and
    rest: "parse_lines_with ext zb sep (i + 1) ls g1 = Inr g'"
    by (rule parse_lines_with_ConsE)
  from store_line_top_roots [OF step Cons.prems(2)] Cons.IH [OF rest]
  show ?case using rec by (simp add: is_root_line_def)
qed

lemma top_roots_empty_graph: "top_roots empty_graph = Some []"
  by (simp add: top_roots_def node_at_def empty_graph_nodes update_node_def override_def
      default_node_def top_fields_def bucket_def)

lemma find_root_cases:
  "find_root g =
     (case deps (node_at g 0) of
        None \<Rightarrow> Inl KeyError
      | Some (DepsList xs) \<Rightarrow> Inl TypeError
      | Some (DepsMap m) \<Rightarrow>
          (case bucket m (VStr ''ROOT'') of
             [] \<Rightarrow> Inl DependencyGraphError
           | r # rest \<Rightarrow>
               Inr (snd (nodes_getitem (snd (nodes_getitem g 0)) r)\<lparr>root := Some r\<rparr>)))"
  using nodes_getitem_map(1) [of g 0]
  by (cases "nodes_getitem g 0")
     (auto simp: find_root_def split: option.splits deps.splits list.splits prod.splits)

lemma find_root_top_roots:
  assumes "top_roots g = Some rs"
  shows "rs = [] \<Longrightarrow> find_root g = Inl DependencyGraphError"
    and "rs \<noteq> [] \<Longrightarrow>
           \<exists>g'. find_root g = Inr g' \<and> root g' = Some (hd rs) \<and> contains_address g' (hd rs) \<and>
                top_roots g' = Some rs \<and>
                (\<forall>k. map_of (nodes g) k \<noteq> None \<longrightarrow> map_of (nodes g') k = map_of (nodes g) k)"
proof -
  from assms obtain m where m: "deps (node_at g 0) = Some (DepsMap m)"
    and rs: "bucket m (VStr ''ROOT'') = rs"
    by (auto simp: top_roots_def split: option.splits deps.splits)
  show "rs = [] \<Longrightarrow> find_root g = Inl DependencyGraphError"
    using m rs by (simp add: find_root_cases)
  assume "rs \<noteq> []"
  then obtain r rest where cons: "rs = r # rest" by (cases rs) auto
  let ?g1 = "snd (nodes_getitem g 0)"
  let ?g2 = "snd (nodes_getitem ?g1 r)"
  have fr: "find_root g = Inr (?g2\<lparr>root := Some r\<rparr>)"
    using m rs cons by (simp add: find_root_cases)
  have map1: "map_of (nodes ?g1) = (map_of (nodes g))(0 \<mapsto> node_at g 0)"
    by (rule nodes_getitem_map(2))
  have map2: "map_of (nodes ?g2) = (map_of (nodes ?g1))(r \<mapsto> node_at ?g1 r)"
    by (rule nodes_getitem_map(2))
  have at0: "node_at ?g2 0 = node_at g 0"
    by (simp add: node_at_map [OF map2] node_at_map [OF map1])
  have keep: "map_of (nodes g) k \<noteq> None \<Longrightarrow> map_of (nodes ?g2) k = map_of (nodes g) k" for k
    by (auto simp: map2 map1 node_at_def)
  have "contains_address ?g2 r"
    by (simp add: contains_address_map map2)
  then show "\<exists>g'. find_root g = Inr g' \<and> root g' = Some (hd rs) \<and> contains_address g' (hd rs) \<and>
                top_roots g' = Some rs \<and>
                (\<forall>k. map_of (nodes g) k \<noteq> None \<longrightarrow> map_of (nodes g') k = map_of (nodes g) k)"
    using fr cons at0 m rs keep
    by (simp add: contains_address_def top_roots_def node_at_def)
qed

section \<open>The built-in extractors and the carried extractor\<close>

lemma extract_3_cells_length: "extract_3_cells cells = Inr fs \<Longrightarrow> length cells = 3"
  by (induction cells rule: extract_3_cells.induct) auto

lemma extract_4_cells_length: "extract_4_cells cells = Inr fs \<Longrightarrow> length cells = 4"
  by (induction cells rule: extract_4_cells.induct) auto

lemma extract_10_cells_length: "extract_10_cells cells = Inr fs \<Longrightarrow> length cells = 10"
  by (induction cells rule: extract_10_cells.induct) auto

lemma builtin_line_record:
  assumes "ext = extract_3_cells \<or> ext = extract_4_cells \<or> ext = extract_10_cells"
    and "line_record ext sep l = Some fs"
  shows "builtin_record sep l = Some fs"
proof -
  from assms(2) obtain cells where cells: "py_split sep l = Inr cells" and fs: "ext cells = Inr fs"
    by (auto simp: line_record_def split: sum.splits)
  from assms(1) have "extractors (length cells) = Some ext"
  proof (elim disjE)
    assume e: "ext = extract_3_cells"
    with fs have "length cells = 3" by (simp add: extract_3_cells_length)
    then show ?thesis by (simp add: extractors_def e)
  next
    assume e: "ext = extract_4_cells"
    with fs have "length cells = 4" by (simp add: extract_4_cells_length)
    then show ?thesis by (simp add: extractors_def e)
  next
    assume e: "ext = extract_10_cells"
    with fs have "length cells = 10" by (simp add: extract_10_cells_length)
    then show ?thesis by (simp add: extractors_def e)
  qed
  then show ?thesis by (simp add: builtin_record_def cells fs)
qed

lemma builtin_extractor_cases:
  "builtin_extractor k = extract_3_cells \<or> builtin_extractor k = extract_4_cells \<or>
   builtin_extractor k = extract_10_cells"
  by (simp add: builtin_extractor_def)

lemma parse_lines_cases:
  assumes "parse_lines ce zb sep i lines g = Inr g'"
  shows "(lines = [] \<and> g' = g) \<or>
         (\<exists>ext. parse_lines_with ext zb sep i lines g = Inr g' \<and>
            (case ce of
               Some e \<Rightarrow> ext = e
             | None \<Rightarrow> ext = extract_3_cells \<or> ext = extract_4_cells \<or> ext = extract_10_cells))"
proof (cases lines)
  case Nil
  with assms show ?thesis by simp
next
  case (Cons l ls)
  show ?thesis
  proof (cases ce)
    case None
    from assms have eq: "(case py_split sep l of
        Inl e \<Rightarrow> Inl e
      | Inr cells \<Rightarrow>
          if length cells \<in> {3, 4, 10}
          then parse_lines_with (builtin_extractor (length cells)) zb sep i (l # ls) g
          else Inl (ValueError_format (int (length cells)))) = Inr g'"
      unfolding Cons None parse_lines_None .
    show ?thesis
    proof (cases "py_split sep l")
      case (Inl e)
      with eq show ?thesis by simp
    next
      case (Inr cells)
      have "parse_lines_with (builtin_extractor (length cells)) zb sep i (l # ls) g = Inr g'"
        using eq unfolding Inr by (cases "length cells \<in> {3, 4, 10}") simp_all
      with builtin_extractor_cases [of "length cells"] show ?thesis
        unfolding Cons None by (intro disjI2 exI [of _ "builtin_extractor (length cells)"]) simp
    qed
  next
    case (Some e)
    with assms show ?thesis by (simp add: parse_lines_Some)
  qed
qed

lemma parse_lines_with_records:
  assumes "parse_lines_with ext zb sep i lines g = Inr g'" and "l \<in> set lines"
  shows "\<exists>fs. line_record ext sep l = Some fs"
proof -
  from assms(2) obtain j where "j < length lines" "lines ! j = l"
    by (auto simp: in_set_conv_nth)
  with parse_lines_with_fields [OF assms(1), of j] show ?thesis by auto
qed

lemma root_lines_empty:
  "(\<forall>l \<in> set lines. \<forall>fs. line_record ext sep l = Some fs \<longrightarrow> fields_rel fs \<noteq> VStr ''ROOT'')
     \<Longrightarrow> root_lines ext zb sep i lines = []"
  by (induction lines arbitrary: i) (auto simp: is_root_line_def split: option.splits)

lemma parse_lines_top_roots:
  assumes "parse_lines ce zb sep 1 lines empty_graph = Inr g'"
  shows "\<exists>rs. top_roots g' = Some rs"
  using parse_lines_cases [OF assms] top_roots_empty_graph
    parse_lines_with_top_roots [of _ zb sep 1 lines empty_graph g' "[]"]
  by auto

lemma parse_lines_no_root:
  assumes "parse_lines None zb sep 1 lines empty_graph = Inr g'"
    and "\<forall>l \<in> set lines. builtin_rel sep l \<noteq> Some (VStr ''ROOT'')"
  shows "top_roots g' = Some []"
proof -
  from parse_lines_cases [OF assms(1)] consider
      (none) "lines = []" "g' = empty_graph"
    | (some) ext where "parse_lines_with ext zb sep 1 lines empty_graph = Inr g'"
        "ext = extract_3_cells \<or> ext = extract_4_cells \<or> ext = extract_10_cells"
    by auto
  then show ?thesis
  proof cases
    case none
    then show ?thesis by (simp add: top_roots_empty_graph)
  next
    case some
    have "\<forall>l \<in> set lines. \<forall>fs. line_record ext sep l = Some fs \<longrightarrow> fields_rel fs \<noteq> VStr ''ROOT''"
      using assms(2) builtin_line_record [OF some(2)] by (fastforce simp: builtin_rel_def)
    then have "root_lines ext zb sep 1 lines = []"
      by (rule root_lines_empty)
    with parse_lines_with_top_roots [OF some(1) top_roots_empty_graph] show ?thesis by simp
  qed
qed

section \<open>The root check\<close>

text \<open>
  C3. Whenever the loop over the non-blank lines of a record has run through (with a
  custom extractor or a built-in one), the sentinel has a list under \<^verbatim>\<open>deps['ROOT']\<close>;
  if that list is empty, construction fails with \<^verbatim>\<open>DependencyGraphError\<close>; otherwise it
  succeeds, the root is the first address of the list, that address has a node, and the
  list is as the loop left it. And a record in the 3-, 4- or 10-column style none of
  whose lines has the relation \<^verbatim>\<open>ROOT\<close> never yields a graph: it fails with the error of
  the loop if a line cannot be processed, and with \<^verbatim>\<open>DependencyGraphError\<close> otherwise.
\<close>

theorem missing_root_fails_else_first_root:
  "(\<forall>g'. parse_lines ce zb sep 1 (input_lines input) empty_graph = Inr g' \<longrightarrow>
      (\<exists>rs. top_roots g' = Some rs \<and>
         (rs = [] \<longrightarrow> parse empty_graph input ce zb sep = Inl DependencyGraphError) \<and>
         (rs \<noteq> [] \<longrightarrow>
            (\<exists>g. parse empty_graph input ce zb sep = Inr g \<and> root g = Some (hd rs) \<and>
                 contains_address g (hd rs) \<and> top_roots g = Some rs)))) \<and>
   ((\<forall>line \<in> set (input_lines input). builtin_rel sep line \<noteq> Some (VStr ''ROOT'')) \<longrightarrow>
      parse empty_graph input None zb sep =
        (case parse_lines None zb sep 1 (input_lines input) empty_graph of
           Inl e \<Rightarrow> Inl e
         | Inr g' \<Rightarrow> Inl DependencyGraphError))"
proof (intro conjI allI impI)
  fix g'
  assume loop: "parse_lines ce zb sep 1 (input_lines input) empty_graph = Inr g'"
  from parse_lines_top_roots [OF loop] obtain rs where rs: "top_roots g' = Some rs"
    by blast
  have p: "parse empty_graph input ce zb sep = find_root g'"
    by (simp add: parse_def loop)
  have "rs = [] \<longrightarrow> parse empty_graph input ce zb sep = Inl DependencyGraphError"
    using find_root_top_roots(1) [OF rs] p by simp
  moreover have "rs \<noteq> [] \<longrightarrow>
            (\<exists>g. parse empty_graph input ce zb sep = Inr g \<and> root g = Some (hd rs) \<and>
                 contains_address g (hd rs) \<and> top_roots g = Some rs)"
    using find_root_top_roots(2) [OF rs] p by auto
  ultimately show "\<exists>rs. top_roots g' = Some rs \<and>
         (rs = [] \<longrightarrow> parse empty_graph input ce zb sep = Inl DependencyGraphError) \<and>
         (rs \<noteq> [] \<longrightarrow>
            (\<exists>g. parse empty_graph input ce zb sep = Inr g \<and> root g = Some (hd rs) \<and>
                 contains_address g (hd rs) \<and> top_roots g = Some rs))"
    using rs by blast
next
  assume no_root: "\<forall>line \<in> set (input_lines input). builtin_rel sep line \<noteq> Some (VStr ''ROOT'')"
  show "parse empty_graph input None zb sep =
        (case parse_lines None zb sep 1 (input_lines input) empty_graph of
           Inl e \<Rightarrow> Inl e
         | Inr g' \<Rightarrow> Inl DependencyGraphError)"
  proof (cases "parse_lines None zb sep 1 (input_lines input) empty_graph")
    case (Inl e)
    then show ?thesis by (simp add: parse_def)
  next
    case (Inr g')
    from parse_lines_no_root [OF Inr no_root] have "find_root g' = Inl DependencyGraphError"
      by (rule find_root_top_roots(1)) simp
    then show ?thesis by (simp add: parse_def Inr)
  qed
qed


theorem missing_root_fails_else_first_root_witness:
  "\<not> isl (parse_lines None False None 1 (input_lines (Str chain_text)) empty_graph) \<and>
   top_roots (projr (parse_lines None False None 1 (input_lines (Str chain_text)) empty_graph))
     = Some [1] \<and>
   (\<exists>g. parse empty_graph (Str chain_text) None False None = Inr g \<and> root g = Some 1 \<and>
        contains_address g 1 \<and> top_roots g = Some [1]) \<and>
   list_all (\<lambda>line. builtin_rel None line \<noteq> Some (VStr ''ROOT''))
     (input_lines (Str three_column_text)) \<and>
   \<not> isl (parse_lines None False None 1 (input_lines (Str three_column_text)) empty_graph) \<and>
   parse empty_graph (Str three_column_text) None False None = Inl DependencyGraphError"
proof -
  let ?loop = "parse_lines None False None 1 (input_lines (Str chain_text)) empty_graph"
  let ?loop3 = "parse_lines None False None 1 (input_lines (Str three_column_text)) empty_graph"
  have a: "\<not> isl ?loop" unfolding chain_text_def by code_simp
  have b: "top_roots (projr ?loop) = Some [1]" unfolding chain_text_def by code_simp
  have c: "list_all (\<lambda>line. builtin_rel None line \<noteq> Some (VStr ''ROOT''))
     (input_lines (Str three_column_text))"
    unfolding three_column_text_def by code_simp
  have d: "\<not> isl ?loop3" unfolding three_column_text_def by code_simp
  from a obtain g1 where loop: "?loop = Inr g1" by (cases ?loop) auto
  from d obtain g3 where loop3: "?loop3 = Inr g3" by (cases ?loop3) auto
  from b loop have roots: "top_roots g1 = Some [1]" by simp
  have e: "\<exists>g. parse empty_graph (Str chain_text) None False None = Inr g \<and> root g = Some 1 \<and>
        contains_address g 1 \<and> top_roots g = Some [1]"
    using missing_root_fails_else_first_root [of None False None "Str chain_text"] loop roots
    by auto
  have f: "parse empty_graph (Str three_column_text) None False None = Inl DependencyGraphError"
    using missing_root_fails_else_first_root [of None False None "Str three_column_text"] c loop3
    by (simp add: list_all_iff)
  show ?thesis using a b c d e f by simp
qed

section \<open>The nodes of a parsed record\<close>

lemma fields_view_SomeD:
  "fields_view g k = Some x \<Longrightarrow> \<exists>n. map_of (nodes g) k = Some n \<and> n\<lparr>deps := None\<rparr> = x"
  by (auto simp: fields_view_def)

lemma parse_unfold:
  assumes "parse g0 input ce zb sep = Inr g"
  obtains g1 where "parse_lines ce zb sep 1 (input_lines input) g0 = Inr g1"
    and "find_root g1 = Inr g"
  using assms by (auto simp: parse_def split: sum.splits)

lemma find_root_keeps:
  assumes "find_root g1 = Inr g" and "top_roots g1 = Some rs"
  shows "rs \<noteq> []" and "root g = Some (hd rs)" and "contains_address g (hd rs)"
    and "map_of (nodes g1) k \<noteq> None \<Longrightarrow> map_of (nodes g) k = map_of (nodes g1) k"
proof -
  show ne: "rs \<noteq> []"
    using find_root_top_roots(1) [OF assms(2)] assms(1) by auto
  from find_root_top_roots(2) [OF assms(2) ne] assms(1)
  show "root g = Some (hd rs)" and "contains_address g (hd rs)"
    and "map_of (nodes g1) k \<noteq> None \<Longrightarrow> map_of (nodes g) k = map_of (nodes g1) k"
    by auto
qed

lemma parse_builtin_node:
  assumes "parse empty_graph input None zb sep = Inr g" and "j < length (input_lines input)"
  shows "\<exists>n fs hv. map_of (nodes g) (1 + int j) = Some n \<and>
           builtin_record sep (input_lines input ! j) = Some fs \<and>
           stored_head zb fs = Some hv \<and>
           n\<lparr>deps := None\<rparr> = line_fields (1 + int j) fs hv"
proof -
  from assms(1) obtain g1 where
    loop: "parse_lines None zb sep 1 (input_lines input) empty_graph = Inr g1" and
    fr: "find_root g1 = Inr g"
    by (rule parse_unfold)
  from parse_lines_cases [OF loop] assms(2) obtain ext where
    pw: "parse_lines_with ext zb sep 1 (input_lines input) empty_graph = Inr g1" and
    ext: "ext = extract_3_cells \<or> ext = extract_4_cells \<or> ext = extract_10_cells"
    by auto
  from parse_lines_with_fields [OF pw assms(2)] obtain fs hv where
    rec: "line_record ext sep (input_lines input ! j) = Some fs" and
    hv: "stored_head zb fs = Some hv" and
    view: "fields_view g1 (1 + int j) = Some (line_fields (1 + int j) fs hv)"
    by blast
  from fields_view_SomeD [OF view] obtain n where
    n: "map_of (nodes g1) (1 + int j) = Some n" "n\<lparr>deps := None\<rparr> = line_fields (1 + int j) fs hv"
    by blast
  from parse_lines_top_roots [OF loop] obtain rs where rs: "top_roots g1 = Some rs"
    by blast
  have "map_of (nodes g) (1 + int j) = Some n"
    using find_root_keeps(4) [OF fr rs, of "1 + int j"] n(1) by simp
  with n(2) hv builtin_line_record [OF ext rec] show ?thesis by blast
qed

lemma stored_head_zero_based:
  "stored_head True fs = map_option (\<lambda>h. h + 1) (stored_head False fs)"
  by (simp add: stored_head_def split: prod.splits sum.splits)

lemma head_line_fields: "head (line_fields i fs h) = Some (VInt h)"
  by (simp add: line_fields_def split: prod.splits)

lemma head_of_fields:
  assumes "n\<lparr>deps := None\<rparr> = line_fields i fs h"
  shows "head n = Some (VInt h)"
proof -
  have "head n = head (n\<lparr>deps := None\<rparr>)" by simp
  also have "\<dots> = Some (VInt h)" unfolding assms by (rule head_line_fields)
  finally show ?thesis .
qed

section \<open>Zero-based heads\<close>

text \<open>
  C7. Take a record parsed with \<^verbatim>\<open>zero_based=True\<close> and a record parsed with
  \<^verbatim>\<open>zero_based=False\<close> (3-, 4- or 10-column style, both accepted by the parser). If the
  head field of the line at some position has the integer value \<open>h\<close> in the first and
  \<open>h + 1\<close> in the second, then the node of that line has the same head in both graphs,
  namely \<open>h + 1\<close>. Nothing is asked of the other lines or fields of the two records, so
  this covers the record that is otherwise identical.
\<close>

theorem zero_based_head_shift:
  assumes "parse empty_graph input None True sep = Inr g"
    and "parse empty_graph input' None False sep = Inr g'"
    and "j < length (input_lines input)" and "j < length (input_lines input')"
    and "raw_head sep (input_lines input ! j) = Some h"
    and "raw_head sep (input_lines input' ! j) = Some (h + 1)"
  shows "\<exists>n n'. map_of (nodes g) (1 + int j) = Some n \<and>
                map_of (nodes g') (1 + int j) = Some n' \<and>
                head n = Some (VInt (h + 1)) \<and> head n' = head n"
proof -
  from parse_builtin_node [OF assms(1,3)] obtain n fs hv where
    n: "map_of (nodes g) (1 + int j) = Some n" and
    fs: "builtin_record sep (input_lines input ! j) = Some fs" and
    hv: "stored_head True fs = Some hv" and
    nf: "n\<lparr>deps := None\<rparr> = line_fields (1 + int j) fs hv"
    by blast
  from parse_builtin_node [OF assms(2,4)] obtain n' fs' hv' where
    n': "map_of (nodes g') (1 + int j) = Some n'" and
    fs': "builtin_record sep (input_lines input' ! j) = Some fs'" and
    hv': "stored_head False fs' = Some hv'" and
    nf': "n'\<lparr>deps := None\<rparr> = line_fields (1 + int j) fs' hv'"
    by blast
  from assms(5) fs have "stored_head False fs = Some h" by (simp add: raw_head_def)
  with hv have "hv = h + 1" by (simp add: stored_head_zero_based)
  moreover from assms(6) fs' hv' have "hv' = h + 1" by (simp add: raw_head_def)
  ultimately have "head n = Some (VInt (h + 1))" "head n' = Some (VInt (h + 1))"
    using head_of_fields [OF nf] head_of_fields [OF nf'] by simp_all
  with n n' show ?thesis by simp
qed

theorem zero_based_head_shift_witness:
  "parse empty_graph (Str zero_based_text) None True None = Inr chain2_graph \<and>
   parse empty_graph (Str one_based_text) None False None = Inr chain2_graph \<and>
   raw_head None (input_lines (Str zero_based_text) ! 1) = Some 0 \<and>
   raw_head None (input_lines (Str one_based_text) ! 1) = Some 1 \<and>
   (\<exists>n n'. map_of (nodes chain2_graph) 2 = Some n \<and> map_of (nodes chain2_graph) 2 = Some n' \<and>
           head n = Some (VInt 1) \<and> head n' = head n)"
proof -
  have a: "parse empty_graph (Str zero_based_text) None True None = Inr chain2_graph"
    unfolding zero_based_text_def chain2_graph_def one_based_text_def by code_simp
  have b: "parse empty_graph (Str one_based_text) None False None = Inr chain2_graph"
    unfolding chain2_graph_def one_based_text_def by code_simp
  have c: "1 < length (input_lines (Str zero_based_text))"
    unfolding zero_based_text_def by code_simp
  have d: "1 < length (input_lines (Str one_based_text))"
    unfolding one_based_text_def by code_simp
  have e: "raw_head None (input_lines (Str zero_based_text) ! 1) = Some 0"
    unfolding zero_based_text_def by code_simp
  have f: "raw_head None (input_lines (Str one_based_text) ! 1) = Some (0 + 1)"
    unfolding one_based_text_def by code_simp
  from zero_based_head_shift [OF a b c d e f] a b e f show ?thesis by simp
qed

section \<open>Loading a file of blocks\<close>

lemma map_result_Inr:
  "map_result f xs = Inr ys \<Longrightarrow>
     length ys = length xs \<and> (\<forall>i < length xs. f (xs ! i) = Inr (ys ! i))"
proof (induction xs arbitrary: ys)
  case Nil
  then show ?case by simp
next
  case (Cons x xs)
  from Cons.prems obtain y ys' where
    y: "f x = Inr y" and ys': "map_result f xs = Inr ys'" and ys: "ys = y # ys'"
    by (auto split: sum.splits)
  from Cons.IH [OF ys'] y ys show ?case
    by (auto simp: nth_Cons split: nat.splits)
qed

lemma map_result_Inl:
  "map_result f xs = Inl e \<Longrightarrow>
     \<exists>i < length xs. f (xs ! i) = Inl e \<and> (\<forall>j < i. \<not> isl (f (xs ! j)))"
proof (induction xs)
  case Nil
  then show ?case by simp
next
  case (Cons x xs)
  show ?case
  proof (cases "f x")
    case (Inl e')
    with Cons.prems have "e' = e" by simp
    with Inl have "0 < length (x # xs) \<and> f ((x # xs) ! 0) = Inl e \<and>
        (\<forall>j < 0. \<not> isl (f ((x # xs) ! j)))" by simp
    then show ?thesis by blast
  next
    case (Inr y)
    with Cons.prems have "map_result f xs = Inl e" by (simp split: sum.splits)
    from Cons.IH [OF this] obtain i where
      i: "i < length xs" "f (xs ! i) = Inl e" "\<forall>j < i. \<not> isl (f (xs ! j))"
      by blast
    have "\<forall>j < Suc i. \<not> isl (f ((x # xs) ! j))"
      using i(3) Inr by (auto simp: nth_Cons split: nat.splits)
    with i(1,2) have "Suc i < length (x # xs) \<and> f ((x # xs) ! Suc i) = Inl e \<and>
        (\<forall>j < Suc i. \<not> isl (f ((x # xs) ! j)))" by simp
    then show ?thesis by blast
  qed
qed

lemma DependencyGraph_root_invariant:
  assumes "DependencyGraph (Some (Str b)) ce zb sep = Inr g" and "b \<noteq> []"
  shows "root_invariant g"
proof -
  from assms have "parse empty_graph (Str b) ce zb sep = Inr g"
    by (simp add: DependencyGraph_def truthy_def)
  then obtain g1 where
    loop: "parse_lines ce zb sep 1 (input_lines (Str b)) empty_graph = Inr g1" and
    fr: "find_root g1 = Inr g"
    by (rule parse_unfold)
  from parse_lines_top_roots [OF loop] obtain rs where rs: "top_roots g1 = Some rs"
    by blast
  have ne: "rs \<noteq> []" by (rule find_root_keeps(1) [OF fr rs])
  from find_root_top_roots(2) [OF rs ne] fr
  have "root g = Some (hd rs)" "contains_address g (hd rs)" "top_roots g = Some rs"
    by auto
  with ne show ?thesis
    by (cases rs) (simp_all add: root_invariant_def)
qed

text \<open>
  C4. Let the content of the file split at the blank-line separator (two newlines) into
  \<open>K\<close> blocks, none of them empty. If \<^verbatim>\<open>load\<close> returns, it returns exactly \<open>K\<close> graphs,
  the graph at each position being the one the constructor builds from the block at that
  position with the given \<^verbatim>\<open>zero_based\<close> and \<^verbatim>\<open>cell_separator\<close>, and each satisfies
  the root invariant. If it fails, its error is the error of the first block whose
  construction fails; so it returns a list only when every block parses, and never a
  partial one.
\<close>

theorem load_one_graph_per_block:
  assumes "\<forall>b \<in> set (split_sep [NL, NL] content). b \<noteq> []"
  shows "case load content zb sep of
           Inr gs \<Rightarrow>
             length gs = length (split_sep [NL, NL] content) \<and>
             (\<forall>i < length (split_sep [NL, NL] content).
                DependencyGraph (Some (Str (split_sep [NL, NL] content ! i))) None zb sep
                  = Inr (gs ! i) \<and>
                root_invariant (gs ! i))
         | Inl e \<Rightarrow>
             \<exists>i < length (split_sep [NL, NL] content).
                DependencyGraph (Some (Str (split_sep [NL, NL] content ! i))) None zb sep = Inl e \<and>
                (\<forall>j < i. \<not> isl (DependencyGraph (Some (Str (split_sep [NL, NL] content ! j)))
                                  None zb sep))"
proof (cases "load content zb sep")
  case (Inl e)
  then have "map_result (\<lambda>tree_str. DependencyGraph (Some (Str tree_str)) None zb sep)
               (split_sep [NL, NL] content) = Inl e"
    by (simp add: load_def)
  from map_result_Inl [OF this] show ?thesis by (simp add: Inl)
next
  case (Inr gs)
  then have "map_result (\<lambda>tree_str. DependencyGraph (Some (Str tree_str)) None zb sep)
               (split_sep [NL, NL] content) = Inr gs"
    by (simp add: load_def)
  from map_result_Inr [OF this] have
    len: "length gs = length (split_sep [NL, NL] content)" and
    each: "\<forall>i < length (split_sep [NL, NL] content).
             DependencyGraph (Some (Str (split_sep [NL, NL] content ! i))) None zb sep = Inr (gs ! i)"
    by auto
  have "root_invariant (gs ! i)" if "i < length (split_sep [NL, NL] content)" for i
  proof (rule DependencyGraph_root_invariant)
    show "DependencyGraph (Some (Str (split_sep [NL, NL] content ! i))) None zb sep = Inr (gs ! i)"
      using each that by simp
    show "split_sep [NL, NL] content ! i \<noteq> []"
      using assms that by simp
  qed
  with len each show ?thesis by (simp add: Inr)
qed

theorem load_one_graph_per_block_witness:
  "list_all (\<lambda>b. b \<noteq> []) (split_sep [NL, NL] two_blocks_text) \<and>
   length (split_sep [NL, NL] two_blocks_text) = 2 \<and>
   (\<exists>gs. load two_blocks_text False None = Inr gs \<and> length gs = 2 \<and>
         root_invariant (gs ! 0) \<and> root_invariant (gs ! 1)) \<and>
   list_all (\<lambda>b. b \<noteq> []) (split_sep [NL, NL] bad_block_text) \<and>
   load bad_block_text False None = Inl DependencyGraphError \<and>
   (\<exists>i < length (split_sep [NL, NL] bad_block_text).
      DependencyGraph (Some (Str (split_sep [NL, NL] bad_block_text ! i))) None False None
        = Inl DependencyGraphError)"
proof -
  have a: "list_all (\<lambda>b. b \<noteq> []) (split_sep [NL, NL] two_blocks_text)"
    unfolding two_blocks_text_def chain_text_def one_based_text_def by code_simp
  have b: "length (split_sep [NL, NL] two_blocks_text) = 2"
    unfolding two_blocks_text_def chain_text_def one_based_text_def by code_simp
  have c: "\<not> isl (load two_blocks_text False None)"
    unfolding two_blocks_text_def chain_text_def one_based_text_def by code_simp
  have d: "list_all (\<lambda>b. b \<noteq> []) (split_sep [NL, NL] bad_block_text)"
    unfolding bad_block_text_def chain_text_def three_column_text_def five_cells_text_def
    by code_simp
  have e: "load bad_block_text False None = Inl DependencyGraphError"
    unfolding bad_block_text_def chain_text_def three_column_text_def five_cells_text_def
    by code_simp
  from c obtain gs where gs: "load two_blocks_text False None = Inr gs"
    by (cases "load two_blocks_text False None") auto
  have f: "length gs = 2 \<and> root_invariant (gs ! 0) \<and> root_invariant (gs ! 1)"
    using load_one_graph_per_block [of two_blocks_text False None] a b gs
    by (simp add: list_all_iff)
  have g: "\<exists>i < length (split_sep [NL, NL] bad_block_text).
      DependencyGraph (Some (Str (split_sep [NL, NL] bad_block_text ! i))) None False None
        = Inl DependencyGraphError"
    using load_one_graph_per_block [of bad_block_text False None] d e
    by (auto simp: list_all_iff)
  show ?thesis using a b d e f g gs by simp
qed

text \<open>
  A content that ends with the separator has an empty last block: the constructor then
  skips the parser, and the list ends with a graph that holds only the sentinel and has
  no root.
\<close>

lemma load_trailing_separator:
  "split_sep [NL, NL] trailing_blank_text = [one_based_text, []] \<and>
   load trailing_blank_text False None = Inr [chain2_graph, empty_graph] \<and>
   \<not> root_invariant empty_graph"
  unfolding trailing_blank_text_def one_based_text_def chain2_graph_def
  by code_simp

section \<open>The items of a graph in ascending order of address\<close>

lemma sort_key_fst_distinct:
  assumes "distinct (map fst al)" and "sorted ks" and "distinct ks" and "set ks = fst ` set al"
  shows "sort_key fst al = map (\<lambda>k. (k, the (map_of al k))) ks"
proof -
  let ?xs = "sort_key fst al"
  have "mset (map fst ?xs) = mset (map fst al)" by simp
  then have d: "distinct (map fst ?xs)"
    using assms(1) mset_eq_imp_distinct_iff by blast
  have keys: "map fst ?xs = ks"
  proof (rule sorted_distinct_set_unique)
    show "sorted (map fst ?xs)" by (rule sorted_sort_key)
    show "distinct (map fst ?xs)" by (rule d)
    show "sorted ks" by (rule assms(2))
    show "distinct ks" by (rule assms(3))
    show "set (map fst ?xs) = set ks" using assms(4) by simp
  qed
  have each: "(fst p, the (map_of al (fst p))) = p" if "p \<in> set ?xs" for p
  proof -
    from that have "(fst p, snd p) \<in> set al" by simp
    with assms(1) have "map_of al (fst p) = Some (snd p)" by simp
    then show ?thesis by simp
  qed
  have "map (\<lambda>p. (fst p, the (map_of al (fst p)))) ?xs = ?xs"
    by (rule map_idI) (rule each)
  then have "?xs = map (\<lambda>p. (fst p, the (map_of al (fst p)))) ?xs"
    by (rule sym)
  also have "\<dots> = map (\<lambda>k. (k, the (map_of al k))) (map fst ?xs)"
    by (simp add: comp_def)
  finally show ?thesis unfolding keys .
qed

lemma upto_as_upt: "[0..int n] = 0 # map (\<lambda>j. 1 + int j) [0..<n]"
proof (induction n)
  case 0
  show ?case by (simp add: upto_rec1)
next
  case (Suc n)
  have "[0..int (Suc n)] = [0..int n] @ [int (Suc n)]"
    using upto_rec2 [of 0 "int (Suc n)"] by simp
  with Suc show ?case by simp
qed

section \<open>Round trip of the 10-column style\<close>

lemma length_10_cells:
  assumes "length (cells :: 'a list) = 10"
  shows "cells = [cells ! 0, cells ! 1, cells ! 2, cells ! 3, cells ! 4, cells ! 5, cells ! 6,
                  cells ! 7, cells ! 8, cells ! 9]"
  using assms by (auto simp: eval_nat_numeral length_Suc_conv)

lemma conll10_line_ok_record:
  assumes "conll10_line_ok n sep line"
  shows "\<exists>h. builtin_record sep line =
               Some (VStr (line_cells sep line ! 1), VStr (line_cells sep line ! 2),
                     VStr (line_cells sep line ! 3), VStr (line_cells sep line ! 4),
                     VStr (line_cells sep line ! 5), VStr (line_cells sep line ! 6),
                     VStr (line_cells sep line ! 7)) \<and>
             py_int (line_cells sep line ! 6) = Some h \<and> 0 \<le> h \<and> h \<le> int n \<and>
             show_int h = line_cells sep line ! 6"
proof -
  let ?cells = "line_cells sep line"
  from assms have len: "length ?cells = 10" by (simp add: conll10_line_ok_def)
  then have split: "py_split sep line = Inr ?cells"
    by (auto simp: line_cells_def split: sum.splits)
  have "extract_10_cells ?cells =
          Inr (VStr (?cells ! 1), VStr (?cells ! 2), VStr (?cells ! 3), VStr (?cells ! 4),
               VStr (?cells ! 5), VStr (?cells ! 6), VStr (?cells ! 7))"
    by (subst length_10_cells [OF len]) simp
  then have "builtin_record sep line =
          Some (VStr (?cells ! 1), VStr (?cells ! 2), VStr (?cells ! 3), VStr (?cells ! 4),
               VStr (?cells ! 5), VStr (?cells ! 6), VStr (?cells ! 7))"
    by (simp add: builtin_record_def split len extractors_def)
  moreover from assms obtain h where "py_int (?cells ! 6) = Some h" "0 \<le> h" "h \<le> int n"
    "show_int h = ?cells ! 6"
    by (auto simp: conll10_line_ok_def canonical_head_def split: option.splits)
  ultimately show ?thesis by blast
qed

lemma node_fields_eq:
  assumes "n\<lparr>deps := None\<rparr> = line_fields i (wd, lm, ct, tg, ft, hs, rl) h"
  shows "word n = Some wd" "lemma_fld n = Some lm" "ctag n = Some ct" "tag n = Some tg"
    "feats n = Some ft" "head n = Some (VInt h)" "rel n = Some rl"
proof -
  let ?m = "line_fields i (wd, lm, ct, tg, ft, hs, rl) h"
  have "word n = word (n\<lparr>deps := None\<rparr>)" "lemma_fld n = lemma_fld (n\<lparr>deps := None\<rparr>)"
    "ctag n = ctag (n\<lparr>deps := None\<rparr>)" "tag n = tag (n\<lparr>deps := None\<rparr>)"
    "feats n = feats (n\<lparr>deps := None\<rparr>)" "head n = head (n\<lparr>deps := None\<rparr>)"
    "rel n = rel (n\<lparr>deps := None\<rparr>)"
    by simp_all
  then show "word n = Some wd" "lemma_fld n = Some lm" "ctag n = Some ct" "tag n = Some tg"
    "feats n = Some ft" "head n = Some (VInt h)" "rel n = Some rl"
    unfolding assms by (simp_all add: line_fields_def)
qed

lemma format_round_trip_line:
  assumes "n\<lparr>deps := None\<rparr> =
             line_fields i (VStr (cells ! 1), VStr (cells ! 2), VStr (cells ! 3), VStr (cells ! 4),
                            VStr (cells ! 5), VStr (cells ! 6), VStr (cells ! 7)) h"
    and "show_int h = cells ! 6"
  shows "format_template template_10 i n = Inr (round_trip_line i cells)"
  using node_fields_eq [OF assms(1)] assms(2)
  by (simp add: template_10_def format_piece_def round_trip_line_def str_of_val_def)


lemma fields_view_None_iff: "fields_view g k = None \<longleftrightarrow> k \<notin> fst ` set (nodes g)"
  by (simp add: fields_view_def map_of_eq_None_iff)

lemma fields_view_empty_graph:
  "fields_view empty_graph k = None \<longleftrightarrow> k \<noteq> 0"
  "\<exists>n0. fields_view empty_graph 0 = Some n0 \<and> tag n0 = Some (VStr ''TOP'')"
  by (auto simp: fields_view_def empty_graph_nodes update_node_def override_def top_fields_def)

lemma root_lines_range:
  "set (root_lines ext zb sep i lines) \<subseteq> {i ..< i + int (length lines)}"
proof (induction lines arbitrary: i)
  case Nil
  show ?case by simp
next
  case (Cons l ls)
  from Cons [of "i + 1"] show ?case by auto
qed

lemma find_root_present:
  assumes "find_root g1 = Inr g" and "top_roots g1 = Some rs"
    and "map_of (nodes g1) 0 \<noteq> None" and "map_of (nodes g1) (hd rs) \<noteq> None"
  shows "nodes g = nodes g1"
proof -
  from assms(2) obtain m where m: "deps (node_at g1 0) = Some (DepsMap m)"
    and rs: "bucket m (VStr ''ROOT'') = rs"
    by (auto simp: top_roots_def split: option.splits deps.splits)
  have ne: "rs \<noteq> []" by (rule find_root_keeps(1) [OF assms(1,2)])
  then obtain r rest where cons: "rs = r # rest" by (cases rs) auto
  from assms(3) have g0: "snd (nodes_getitem g1 0) = g1"
    by (auto simp: nodes_getitem_def)
  from assms(4) cons have gr: "snd (nodes_getitem g1 r) = g1"
    by (auto simp: nodes_getitem_def)
  from assms(1) m rs cons have "g = g1\<lparr>root := Some r\<rparr>"
    by (simp add: find_root_cases g0 gr)
  then show ?thesis by simp
qed

lemma distinct_empty_graph: "distinct (map fst (nodes empty_graph))"
  by (simp add: empty_graph_nodes)

lemma stored_head_str:
  "py_int s = Some h \<Longrightarrow> stored_head False (wd, lm, ct, tg, ft, VStr s, rl) = Some h"
  by (simp add: stored_head_def int_of_val_def)

lemma parsed_conll10_nodes:
  assumes parse: "parse empty_graph input None False sep = Inr g"
    and ok: "\<forall>line \<in> set (input_lines input).
               conll10_line_ok (length (input_lines input)) sep line"
  shows "distinct (map fst (nodes g))"
    and "fst ` set (nodes g) = {0 .. int (length (input_lines input))}"
    and "\<exists>n0. map_of (nodes g) 0 = Some n0 \<and> tag n0 = Some (VStr ''TOP'')"
proof -
  let ?lines = "input_lines input"
  let ?n = "length ?lines"
  from parse obtain g1 where
    loop: "parse_lines None False sep 1 ?lines empty_graph = Inr g1" and
    fr: "find_root g1 = Inr g"
    by (rule parse_unfold)
  have "?lines \<noteq> []"
  proof
    assume "?lines = []"
    with loop have "g1 = empty_graph" by simp
    with fr find_root_top_roots(1) [OF top_roots_empty_graph] show False by simp
  qed
  with parse_lines_cases [OF loop] obtain ext where
    pw: "parse_lines_with ext False sep 1 ?lines empty_graph = Inr g1" and
    ext: "ext = extract_3_cells \<or> ext = extract_4_cells \<or> ext = extract_10_cells"
    by auto
  have view0: "fields_view g1 0 = fields_view empty_graph 0"
    by (rule parse_lines_with_frame [OF pw]) (simp_all add: fields_view_empty_graph(1))
  have upper: "0 \<le> k \<and> k \<le> int ?n" if "fields_view g1 k \<noteq> None" for k
  proof -
    from parse_lines_with_keys [OF pw that] consider
        (old) "fields_view empty_graph k \<noteq> None"
      | (index) "1 \<le> k \<and> k < 1 + int ?n"
      | (head) j fs where "j < ?n" "line_record ext sep (?lines ! j) = Some fs"
          "stored_head False fs = Some k"
      by blast
    then show ?thesis
    proof cases
      case old
      then show ?thesis by (simp add: fields_view_empty_graph(1))
    next
      case index
      then show ?thesis by simp
    next
      case head
      from head(1) ok have "conll10_line_ok ?n sep (?lines ! j)" by simp
      from conll10_line_ok_record [OF this] obtain h where
        rec: "builtin_record sep (?lines ! j) =
               Some (VStr (line_cells sep (?lines ! j) ! 1), VStr (line_cells sep (?lines ! j) ! 2),
                     VStr (line_cells sep (?lines ! j) ! 3), VStr (line_cells sep (?lines ! j) ! 4),
                     VStr (line_cells sep (?lines ! j) ! 5), VStr (line_cells sep (?lines ! j) ! 6),
                     VStr (line_cells sep (?lines ! j) ! 7))" and
        h: "py_int (line_cells sep (?lines ! j) ! 6) = Some h" "0 \<le> h" "h \<le> int ?n"
        by blast
      from builtin_line_record [OF ext head(2)] rec
      have "fs = (VStr (line_cells sep (?lines ! j) ! 1), VStr (line_cells sep (?lines ! j) ! 2),
                  VStr (line_cells sep (?lines ! j) ! 3), VStr (line_cells sep (?lines ! j) ! 4),
                  VStr (line_cells sep (?lines ! j) ! 5), VStr (line_cells sep (?lines ! j) ! 6),
                  VStr (line_cells sep (?lines ! j) ! 7))"
        by simp
      with head(3) stored_head_str [OF h(1)] have "k = h" by simp
      with h show ?thesis by simp
    qed
  qed
  have lower: "fields_view g1 k \<noteq> None" if "0 \<le> k" "k \<le> int ?n" for k
  proof (cases "k = 0")
    case True
    then show ?thesis by (simp add: view0 fields_view_empty_graph(1))
  next
    case False
    with that have j: "nat (k - 1) < ?n" and k: "k = 1 + int (nat (k - 1))" by auto
    from parse_lines_with_fields [OF pw j] show ?thesis
      by (subst k) auto
  qed
  have keys1: "fst ` set (nodes g1) = {0 .. int ?n}"
  proof (rule set_eqI)
    fix k
    have "k \<in> fst ` set (nodes g1) \<longleftrightarrow> fields_view g1 k \<noteq> None"
      by (simp add: fields_view_None_iff)
    also have "\<dots> \<longleftrightarrow> 0 \<le> k \<and> k \<le> int ?n"
      using upper [of k] lower [of k] by blast
    finally show "k \<in> fst ` set (nodes g1) \<longleftrightarrow> k \<in> {0 .. int ?n}" by simp
  qed
  from parse_lines_with_top_roots [OF pw top_roots_empty_graph]
  have rs: "top_roots g1 = Some (root_lines ext False sep 1 ?lines)" by simp
  have "root_lines ext False sep 1 ?lines \<noteq> []"
    by (rule find_root_keeps(1) [OF fr rs])
  then have "hd (root_lines ext False sep 1 ?lines) \<in> set (root_lines ext False sep 1 ?lines)"
    by simp
  with root_lines_range [of ext False sep 1 ?lines]
  have "hd (root_lines ext False sep 1 ?lines) \<in> fst ` set (nodes g1)"
    unfolding keys1 by auto
  then have r_present: "map_of (nodes g1) (hd (root_lines ext False sep 1 ?lines)) \<noteq> None"
    by (simp add: map_of_eq_None_iff)
  have "(0::int) \<in> fst ` set (nodes g1)" unfolding keys1 by simp
  then have top_present: "map_of (nodes g1) 0 \<noteq> None"
    by (simp add: map_of_eq_None_iff)
  have same: "nodes g = nodes g1"
    by (rule find_root_present [OF fr rs top_present r_present])
  show "distinct (map fst (nodes g))"
    unfolding same by (rule parse_lines_with_distinct [OF pw distinct_empty_graph])
  show "fst ` set (nodes g) = {0 .. int ?n}"
    unfolding same by (rule keys1)
  from fields_view_empty_graph(2) view0 obtain n0 where
    "fields_view g1 0 = Some n0" "tag n0 = Some (VStr ''TOP'')" by auto
  then show "\<exists>n0. map_of (nodes g) 0 = Some n0 \<and> tag n0 = Some (VStr ''TOP'')"
    unfolding same by (auto simp: fields_view_def)
qed

lemma parsed_conll10_line:
  assumes parse: "parse empty_graph input None False sep = Inr g"
    and ok: "\<forall>line \<in> set (input_lines input).
               conll10_line_ok (length (input_lines input)) sep line"
    and j: "j < length (input_lines input)"
  shows "\<exists>n. map_of (nodes g) (1 + int j) = Some n \<and> tag n \<noteq> None \<and>
             tag n \<noteq> Some (VStr ''TOP'') \<and>
             format_template template_10 (1 + int j) n =
               Inr (round_trip_line (1 + int j) (line_cells sep (input_lines input ! j)))"
proof -
  let ?line = "input_lines input ! j"
  let ?cells = "line_cells sep ?line"
  from parse_builtin_node [OF parse j] obtain n fs hv where
    n: "map_of (nodes g) (1 + int j) = Some n" and
    fs: "builtin_record sep ?line = Some fs" and
    hv: "stored_head False fs = Some hv" and
    nf: "n\<lparr>deps := None\<rparr> = line_fields (1 + int j) fs hv"
    by blast
  from j ok have line_ok: "conll10_line_ok (length (input_lines input)) sep ?line" by simp
  from conll10_line_ok_record [OF line_ok] obtain h where
    rec: "builtin_record sep ?line =
            Some (VStr (?cells ! 1), VStr (?cells ! 2), VStr (?cells ! 3), VStr (?cells ! 4),
                  VStr (?cells ! 5), VStr (?cells ! 6), VStr (?cells ! 7))" and
    h: "py_int (?cells ! 6) = Some h" "show_int h = ?cells ! 6"
    by blast
  from fs rec have fs_eq: "fs = (VStr (?cells ! 1), VStr (?cells ! 2), VStr (?cells ! 3),
      VStr (?cells ! 4), VStr (?cells ! 5), VStr (?cells ! 6), VStr (?cells ! 7))"
    by simp
  from hv stored_head_str [OF h(1)] have "hv = h" unfolding fs_eq by simp
  with nf have nf': "n\<lparr>deps := None\<rparr> =
      line_fields (1 + int j) (VStr (?cells ! 1), VStr (?cells ! 2), VStr (?cells ! 3),
        VStr (?cells ! 4), VStr (?cells ! 5), VStr (?cells ! 6), VStr (?cells ! 7)) h"
    unfolding fs_eq by simp
  have fmt: "format_template template_10 (1 + int j) n = Inr (round_trip_line (1 + int j) ?cells)"
    by (rule format_round_trip_line [OF nf' h(2)])
  from line_ok have "?cells ! 4 \<noteq> ''TOP''" by (simp add: conll10_line_ok_def)
  with node_fields_eq(4) [OF nf'] have "tag n \<noteq> None" "tag n \<noteq> Some (VStr ''TOP'')"
    by simp_all
  with n fmt show ?thesis by blast
qed


lemma to_conll_parsed_conll10:
  assumes parse: "parse empty_graph input None False sep = Inr g"
    and ok: "\<forall>line \<in> set (input_lines input).
               conll10_line_ok (length (input_lines input)) sep line"
  shows "to_conll g 10 =
           Inr (concat (map (\<lambda>j. round_trip_line (1 + int j)
                                   (line_cells sep (input_lines input ! j)))
                            [0..<length (input_lines input)]))"
proof -
  let ?lines = "input_lines input"
  let ?n = "length ?lines"
  let ?node = "\<lambda>k. the (map_of (nodes g) k)"
  let ?rest = "map (\<lambda>j. (1 + int j, ?node (1 + int j))) [0..<?n]"
  let ?line = "\<lambda>i (n::node). round_trip_line i (line_cells sep (?lines ! nat (i - 1)))"
  from parsed_conll10_nodes [OF parse ok] obtain n0 where
    dist: "distinct (map fst (nodes g))" and
    keys: "fst ` set (nodes g) = {0 .. int ?n}" and
    n0: "map_of (nodes g) 0 = Some n0" "tag n0 = Some (VStr ''TOP'')"
    by blast
  have "sort_key fst (nodes g) = map (\<lambda>k. (k, ?node k)) [0..int ?n]"
    by (rule sort_key_fst_distinct [OF dist]) (simp_all add: keys)
  also have "\<dots> = (0, n0) # ?rest"
    by (simp add: upto_as_upt n0(1) comp_def)
  finally have items: "sort_key fst (nodes g) = (0, n0) # ?rest" .
  have each: "tag (snd item) \<noteq> None \<and> not_top item \<and>
      format_template template_10 (fst item) (snd item) = Inr (?line (fst item) (snd item))"
    if "item \<in> set ?rest" for item
  proof -
    from that obtain j where j: "j < ?n" and item: "item = (1 + int j, ?node (1 + int j))"
      by auto
    from parsed_conll10_line [OF parse ok j] show ?thesis
      by (auto simp: item not_top_def)
  qed
  then have "join_lines template_10 ?rest =
      Inr (concat (map (\<lambda>(i, n). ?line i n) (filter not_top ?rest)))"
    by (intro join_lines_all) blast
  moreover have "filter not_top ?rest = ?rest"
    using each by (intro filter_True) blast
  moreover have "concat (map (\<lambda>(i, n). ?line i n) ?rest) =
      concat (map (\<lambda>j. round_trip_line (1 + int j) (line_cells sep (?lines ! j))) [0..<?n])"
    by (simp add: comp_def)
  ultimately have "join_lines template_10 ?rest =
      Inr (concat (map (\<lambda>j. round_trip_line (1 + int j) (line_cells sep (?lines ! j))) [0..<?n]))"
    by simp
  then show ?thesis
    by (simp add: to_conll_def select_template_def items n0(2) del: upt_Suc)
qed

lemma to_conll_empty_graph: "to_conll empty_graph 10 = Inr []"
  by (simp add: to_conll_def select_template_def empty_graph_nodes update_node_def override_def
      top_fields_def)

lemma input_lines_empty: "input_lines (Str []) = []"
  by (simp add: input_lines_def split_sep_def rstrip_def)

text \<open>
  C2, as amended. Take a text in the 10-column style: every non-blank line has ten
  cells, its head field is the decimal numeral of 0 or of the position of a line of the
  text, and its tag field is not \<^verbatim>\<open>TOP\<close>. If the constructor accepts it (with the
  default \<^verbatim>\<open>zero_based=False\<close>), then \<^verbatim>\<open>to_conll(10)\<close> returns, for each non-blank
  line in order, the position of the line, then the fields \<^verbatim>\<open>word, lemma, ctag, tag,
  feats, head, rel\<close> exactly as the line has them, then two underscores, separated by
  tabs and ended by a newline.
\<close>

theorem conll10_round_trip:
  assumes "DependencyGraph (Some (Str text)) None False sep = Inr g"
    and "\<forall>line \<in> set (input_lines (Str text)).
           conll10_line_ok (length (input_lines (Str text))) sep line"
  shows "to_conll g 10 =
           Inr (concat (map (\<lambda>j. round_trip_line (1 + int j)
                                   (line_cells sep (input_lines (Str text) ! j)))
                            [0..<length (input_lines (Str text))]))"
proof (cases "text = []")
  case True
  with assms(1) have "g = empty_graph" by (simp add: DependencyGraph_def truthy_def)
  then show ?thesis by (simp add: True to_conll_empty_graph input_lines_empty)
next
  case False
  with assms(1) have "parse empty_graph (Str text) None False sep = Inr g"
    by (simp add: DependencyGraph_def truthy_def)
  then show ?thesis using assms(2) by (rule to_conll_parsed_conll10)
qed

theorem conll10_round_trip_witness:
  "\<not> isl (DependencyGraph (Some (Str conll10_text)) None False None) \<and>
   list_all (conll10_line_ok (length (input_lines (Str conll10_text))) None)
     (input_lines (Str conll10_text)) \<and>
   to_conll (projr (DependencyGraph (Some (Str conll10_text)) None False None)) 10
     = Inr conll10_output"
proof -
  let ?r = "DependencyGraph (Some (Str conll10_text)) None False None"
  have a: "\<not> isl ?r" unfolding conll10_text_def by code_simp
  have b: "list_all (conll10_line_ok (length (input_lines (Str conll10_text))) None)
     (input_lines (Str conll10_text))"
    unfolding conll10_text_def by code_simp
  have c: "concat (map (\<lambda>j. round_trip_line (1 + int j)
                                   (line_cells None (input_lines (Str conll10_text) ! j)))
                            [0..<length (input_lines (Str conll10_text))]) = conll10_output"
    unfolding conll10_text_def conll10_output_def by code_simp
  from a obtain g where g: "?r = Inr g" by (cases ?r) auto
  from b have ok: "\<forall>line \<in> set (input_lines (Str conll10_text)).
           conll10_line_ok (length (input_lines (Str conll10_text))) None line"
    by (simp add: list_all_iff)
  from conll10_round_trip [OF g ok] c have "to_conll g 10 = Inr conll10_output" by simp
  with a b g show ?thesis by simp
qed

text \<open>
  The claim as stated fails for a token whose tag is \<^verbatim>\<open>TOP\<close>: the record is accepted,
  and the serialiser, which recognises the sentinel by its tag, leaves the token out.
\<close>

theorem conll10_round_trip_counterexample:
  "\<not> isl (DependencyGraph (Some (Str conll10_top_text)) None False None) \<and>
   length (line_cells None conll10_top_text) = 10 \<and>
   canonical_head 1 (line_cells None conll10_top_text ! 6) \<and>
   to_conll (projr (DependencyGraph (Some (Str conll10_top_text)) None False None)) 10 = Inr []"
  unfolding conll10_top_text_def by code_simp

end
